theory Spec2Isabelle
  imports Main "HOL-Library.Multiset"
begin

section \<open>The mock clock of blugnu/time\<close>

text \<open>
  A shallow embedding of the mock clock (\<^verbatim>\<open>mockClock\<close>), its timers and tickers and
  the deadline context built on it.

  \<^item> A \<^verbatim>\<open>time.Time\<close> is the integer number of nanoseconds since the epoch and a
    \<^verbatim>\<open>time.Duration\<close> an integer number of nanoseconds. A duration that a caller
    passes is any integer; the difference of two instants, \<^verbatim>\<open>Time.Sub\<close>, is cut to
    the 64-bit range of a duration as the standard library does (\<open>Sub\<close>). A location
    only changes how an instant is printed, so \<^verbatim>\<open>t.In(loc)\<close> is \<open>t\<close>.
  \<^item> The clock owns its timers and tickers through pointers. A \<^verbatim>\<open>*timer\<close> or
    \<^verbatim>\<open>*ticker\<close> is identified with its \<^verbatim>\<open>tickerId\<close>, which the clock hands out from
    \<^verbatim>\<open>nextTickerId\<close>, one per object; the objects live in the store \<open>objs\<close> and the
    lists \<open>active\<close> and \<open>inactive\<close> hold ids.
  \<^item> A goroutine started by \<^verbatim>\<open>tick\<close> writes \<^verbatim>\<open>clock.now\<close> and delivers (it calls
    the function or sends on the channel). The delivery is logged in \<open>sent\<close> where the
    goroutine is started, as the pair of the tickable's id and the time value it
    carries: \<open>sent\<close> lists the deliveries in the order of the \<^verbatim>\<open>go\<close> statements. The
    write of \<^verbatim>\<open>clock.now\<close> is made when the goroutine runs. After the \<^verbatim>\<open>go\<close>
    statement \<^verbatim>\<open>tick\<close> sleeps for \<^verbatim>\<open>clock.yield\<close>: a positive yield suspends the
    caller and the goroutine runs then, at the tick. A yield of 0 does not suspend the
    caller (\<^verbatim>\<open>time.Sleep\<close> returns at once): the write is kept in \<open>waiting\<close> and is
    made once the call of the clock has returned (\<open>settled\<close>).
  \<^item> The lock of the clock is not modelled: the operations are called one at a time.
  \<^item> \<^verbatim>\<open>sort.Sort\<close> belongs to the standard library. It is a parameter \<open>srt\<close> of
    every operation that sorts; what the library promises of it is \<open>sort_contract\<close>.
  \<^item> A panic is the outcome \<open>Panics\<close>, carrying the state the clock is left in; a loop
    that does not end is the value \<open>None\<close>.
\<close>

subsection \<open>Data\<close>

datatype tickerState = tsActive | tsExpired | tsStopped

datatype error =
    ErrClockAlreadyExists
  | ErrClockIsRunning
  | ErrClockNotRunning
  | ErrNotADelorean
  | errClockLocked
  | errInvalidState
  | errInvalidTransition
  | errNonPositiveInterval
  | errResetCalledOnUninitialized
  | nilPointerDereference
  | closeOfClosedChannel

text \<open>
  One record for the structs \<^verbatim>\<open>timer\<close> and \<^verbatim>\<open>ticker\<close>: \<open>isTicker\<close> tells them apart,
  \<open>fn\<close> is \<^verbatim>\<open>fn != nil\<close>, \<open>chan\<close> is \<^verbatim>\<open>c != nil\<close>, \<open>dur\<close> is the field \<^verbatim>\<open>d\<close> of a
  ticker and \<open>nxt\<close> the field \<^verbatim>\<open>next\<close>.
\<close>

record tickable =
  isTicker :: bool
  fn :: bool
  chan :: bool
  dur :: int
  nxt :: int
  state :: tickerState

record mockClock =
  createdAt :: int
  dropsTicks :: bool
  yield :: int
  now :: int
  nStopped :: int
  updated :: int
  active :: "nat list"
  inactive :: "nat list"
  nextTickerId :: nat
  objs :: "nat \<Rightarrow> tickable"
  sent :: "(nat \<times> int) list"
  waiting :: "int list"

datatype 'a outcome =
    Returns 'a mockClock
  | Panics error mockClock
  | Stdlib mockClock

type_synonym sorter = "(nat \<Rightarrow> int) \<Rightarrow> nat list \<Rightarrow> nat list"

text \<open>
  \<^verbatim>\<open>sort.Sort\<close> with \<^verbatim>\<open>Less(i, j) = a[i].nextTick().Before(a[j].nextTick())\<close>: the
  result holds the same elements and is ascending in the key. The library does not
  promise a stable sort.
\<close>

definition sort_contract :: "sorter \<Rightarrow> bool" where
  "sort_contract srt \<longleftrightarrow>
     (\<forall>key xs. mset (srt key xs) = mset xs \<and> sorted (map key (srt key xs)))"

subsection \<open>The registry: tickables.go and the clock's lists\<close>

definition nextTick :: "mockClock \<Rightarrow> nat \<Rightarrow> int" where
  "nextTick m i = nxt (objs m i)"

fun tickables_get :: "nat \<Rightarrow> nat list \<Rightarrow> nat option" where
  "tickables_get i [] = None"
| "tickables_get i (x # xs) = (if x = i then Some x else tickables_get i xs)"

fun tickables_remove :: "nat \<Rightarrow> nat list \<Rightarrow> nat list" where
  "tickables_remove i [] = []"
| "tickables_remove i (x # xs) = (if x = i then xs else x # tickables_remove i xs)"

definition tickables_take :: "nat \<Rightarrow> nat list \<Rightarrow> nat list \<times> nat option" where
  "tickables_take i a =
     (case tickables_get i a of
        Some t \<Rightarrow> (tickables_remove i a, Some t)
      | None \<Rightarrow> (a, None))"

definition activateTicker :: "sorter \<Rightarrow> nat \<Rightarrow> mockClock \<Rightarrow> mockClock" where
  "activateTicker srt i m = m\<lparr>active := srt (nextTick m) (active m @ [i])\<rparr>"

definition disableTicker :: "nat \<Rightarrow> mockClock \<Rightarrow> mockClock" where
  "disableTicker i m =
     (case tickables_take i (active m) of
        (a, Some t) \<Rightarrow> m\<lparr>active := a, inactive := inactive m @ [t]\<rparr>
      | (a, None) \<Rightarrow> m\<lparr>active := a\<rparr>)"

definition enableTicker :: "sorter \<Rightarrow> nat \<Rightarrow> mockClock \<Rightarrow> mockClock" where
  "enableTicker srt i m =
     (case tickables_take i (inactive m) of
        (a, Some t) \<Rightarrow> activateTicker srt t (m\<lparr>inactive := a\<rparr>)
      | (a, None) \<Rightarrow> m\<lparr>inactive := a\<rparr>)"

subsection \<open>State transitions\<close>

definition set_state :: "nat \<Rightarrow> tickerState \<Rightarrow> mockClock \<Rightarrow> mockClock" where
  "set_state i s m = m\<lparr>objs := (objs m)(i := (objs m i)\<lparr>state := s\<rparr>)\<rparr>"

definition set_nxt :: "nat \<Rightarrow> int \<Rightarrow> mockClock \<Rightarrow> mockClock" where
  "set_nxt i t m = m\<lparr>objs := (objs m)(i := (objs m i)\<lparr>nxt := t\<rparr>)\<rparr>"

text \<open>
  \<^verbatim>\<open>timer.enterState\<close>. The type \<open>tickerState\<close> has the three declared states only, so
  the \<^verbatim>\<open>default\<close> branch (\<^verbatim>\<open>errInvalidState\<close>) has no counterpart.
\<close>

definition timer_enterState :: "sorter \<Rightarrow> nat \<Rightarrow> tickerState \<Rightarrow> mockClock \<Rightarrow> mockClock" where
  "timer_enterState srt i s m =
     (if state (objs m i) = s then m
      else let m1 = set_state i s m in
        (case s of
           tsActive \<Rightarrow> enableTicker srt i m1
         | tsExpired \<Rightarrow> disableTicker i m1
         | tsStopped \<Rightarrow> disableTicker i m1))"

definition ticker_enterState :: "sorter \<Rightarrow> nat \<Rightarrow> tickerState \<Rightarrow> mockClock \<Rightarrow> unit outcome" where
  "ticker_enterState srt i s m =
     (if state (objs m i) = s then Returns () m
      else let m1 = set_state i s m in
        (case s of
           tsActive \<Rightarrow> Returns () (enableTicker srt i m1)
         | tsStopped \<Rightarrow> Returns () (disableTicker i m1)
         | tsExpired \<Rightarrow> Panics errInvalidTransition m1))"

subsection \<open>tick\<close>

text \<open>
  The end of \<^verbatim>\<open>tick\<close>: \<^verbatim>\<open>go func() { clock.now = at; deliver }()\<close> followed by
  \<^verbatim>\<open>time.Sleep(clock.yield)\<close>, for the tickable \<open>i\<close> and the time value \<open>at\<close>. The
  goroutine runs during the sleep when the yield is positive; with a yield of 0 its
  write of \<^verbatim>\<open>clock.now\<close> waits.
\<close>

definition go_deliver :: "nat \<Rightarrow> int \<Rightarrow> mockClock \<Rightarrow> mockClock" where
  "go_deliver i at m =
     (let m1 = m\<lparr>sent := sent m @ [(i, at)]\<rparr> in
      if 0 < yield m then m1\<lparr>now := at\<rparr> else m1\<lparr>waiting := waiting m @ [at]\<rparr>)"

text \<open>
  The clock once the goroutines that were waiting have run, in the order in which they
  were started.
\<close>

definition settled :: "mockClock \<Rightarrow> mockClock" where
  "settled m = (fold (\<lambda>at x. x\<lparr>now := at\<rparr>) (waiting m) m)\<lparr>waiting := []\<rparr>"

text \<open>
  \<^verbatim>\<open>timer.tick\<close>; the argument \<open>None\<close> is the nil receiver. The goroutine writes
  \<^verbatim>\<open>clock.now = t.next\<close> and calls \<^verbatim>\<open>fn\<close> or sends \<^verbatim>\<open>t.next\<close> on the channel.
\<close>

definition timer_tick :: "sorter \<Rightarrow> nat option \<Rightarrow> int \<Rightarrow> mockClock \<Rightarrow> bool \<times> mockClock" where
  "timer_tick srt r tnow m =
     (case r of
        None \<Rightarrow> (False, m)
      | Some i \<Rightarrow>
          if state (objs m i) \<noteq> tsActive \<or> tnow < nxt (objs m i) then (False, m)
          else let m1 = timer_enterState srt i tsExpired m;
                   t = objs m1 i in
            (True, if fn t \<or> chan t then go_deliver i (nxt t) m1 else m1))"

text \<open>
  The loop of \<^verbatim>\<open>ticker.tick\<close> that runs when the clock drops ticks:
  \<^verbatim>\<open>for !t.next.After(now) { at = t.next; t.next = t.next.Add(t.d) }\<close>.
\<close>

partial_function (option) dropLoop :: "int \<Rightarrow> int \<Rightarrow> int \<Rightarrow> int \<Rightarrow> (int \<times> int) option" where
  "dropLoop d tnow at nx =
     (if \<not> tnow < nx then dropLoop d tnow nx (nx + d) else Some (at, nx))"

definition ticker_tick :: "nat option \<Rightarrow> int \<Rightarrow> mockClock \<Rightarrow> (bool \<times> mockClock) option" where
  "ticker_tick r tnow m =
     (case r of
        None \<Rightarrow> Some (False, m)
      | Some i \<Rightarrow>
          let t = objs m i in
          if state t \<noteq> tsActive \<or> tnow < nxt t then Some (False, m)
          else
            Option.bind
              (if dropsTicks m then dropLoop (dur t) tnow (nxt t) (nxt t + dur t)
               else Some (nxt t, nxt t + dur t))
              (\<lambda>(at, nx). Some (True, go_deliver i at (set_nxt i nx m))))"

text \<open>The call \<^verbatim>\<open>ticker.tick(t)\<close> through the interface \<^verbatim>\<open>tickable\<close>.\<close>

definition tickable_tick :: "sorter \<Rightarrow> nat \<Rightarrow> int \<Rightarrow> mockClock \<Rightarrow> (bool \<times> mockClock) option" where
  "tickable_tick srt i tnow m =
     (if isTicker (objs m i) then ticker_tick (Some i) tnow m
      else Some (timer_tick srt (Some i) tnow m))"

text \<open>\<^verbatim>\<open>mockClock.tick\<close>: the result of the tickable's own \<^verbatim>\<open>tick\<close> is dropped.\<close>

definition mockClock_tick :: "sorter \<Rightarrow> int \<Rightarrow> mockClock \<Rightarrow> (bool \<times> mockClock) option" where
  "mockClock_tick srt t m =
     (case active m of
        [] \<Rightarrow> Some (False, m)
      | i # _ \<Rightarrow>
          if t < nextTick m i then Some (False, m)
          else Option.bind (tickable_tick srt i t m)
                 (\<lambda>(_, m1). Some (True, m1\<lparr>active := srt (nextTick m1) (active m1)\<rparr>)))"

text \<open>The loop \<^verbatim>\<open>for m.tick(t) { }\<close> of \<^verbatim>\<open>AdvanceTo\<close>.\<close>

partial_function (option) tick_loop :: "sorter \<Rightarrow> int \<Rightarrow> mockClock \<Rightarrow> mockClock option" where
  "tick_loop srt t m =
     Option.bind (mockClock_tick srt t m)
       (\<lambda>(b, m1). if b then tick_loop srt t m1 else Some m1)"

subsection \<open>Advancing the clock\<close>

definition IsRunning :: "mockClock \<Rightarrow> bool" where
  "IsRunning m \<longleftrightarrow> nStopped m = 0"

text \<open>
  \<^verbatim>\<open>Time.Sub\<close> of the standard library: the difference of two instants, or the largest
  or the smallest duration when the difference is out of the range of 64 bits.
\<close>

definition maxDuration :: int where
  "maxDuration = 9223372036854775807"

definition minDuration :: int where
  "minDuration = - 9223372036854775808"

definition Sub :: "int \<Rightarrow> int \<Rightarrow> int" where
  "Sub t u = max minDuration (min maxDuration (t - u))"

text \<open>
  \<^verbatim>\<open>advance\<close>; \<open>rt\<close> is what \<^verbatim>\<open>time.Now()\<close> reads from the system clock during the call,
  and \<^verbatim>\<open>time.Since(m.updated)\<close> is \<^verbatim>\<open>time.Now().Sub(m.updated)\<close>.
\<close>

definition advance :: "int \<Rightarrow> mockClock \<Rightarrow> int \<times> mockClock" where
  "advance rt m =
     (if \<not> IsRunning m then (now m, m)
      else let elapsed = Sub rt (updated m);
               m1 = m\<lparr>now := now m + elapsed, updated := updated m + elapsed\<rparr>
           in (now m1, m1))"

definition Now :: "int \<Rightarrow> mockClock \<Rightarrow> int \<times> mockClock" where
  "Now rt m = advance rt m"

definition Until :: "int \<Rightarrow> int \<Rightarrow> mockClock \<Rightarrow> int \<times> mockClock" where
  "Until rt t m = (case Now rt m of (tnow, m1) \<Rightarrow> (Sub t tnow, m1))"

text \<open>
  \<^verbatim>\<open>AdvanceTo\<close>. Its two calls of \<^verbatim>\<open>time.Sleep(m.yield)\<close> change nothing in the
  clock: with a positive yield every goroutine that a tick started has run at that
  tick, and a yield of 0 does not suspend the caller.
\<close>

definition AdvanceTo :: "sorter \<Rightarrow> int \<Rightarrow> int \<Rightarrow> mockClock \<Rightarrow> unit outcome option" where
  "AdvanceTo srt rt t m =
     (if t < now m then Some (Panics ErrNotADelorean m)
      else Option.bind (tick_loop srt t m)
             (\<lambda>m1. Some (Returns () (m1\<lparr>now := t, updated := rt\<rparr>))))"

definition AdvanceBy :: "sorter \<Rightarrow> int \<Rightarrow> int \<Rightarrow> mockClock \<Rightarrow> unit outcome option" where
  "AdvanceBy srt rt d m = AdvanceTo srt rt (now m + d) m"

definition Start :: "int \<Rightarrow> mockClock \<Rightarrow> unit outcome" where
  "Start rt m =
     (let n = nStopped m - 1; m1 = m\<lparr>nStopped := n\<rparr> in
      if n = 0 then Returns () (snd (advance rt m1))
      else if n < 0 then Panics ErrClockIsRunning m1
      else Returns () m1)"

definition Stop :: "mockClock \<Rightarrow> mockClock" where
  "Stop m = m\<lparr>nStopped := nStopped m + 1\<rparr>"

definition Update :: "int \<Rightarrow> mockClock \<Rightarrow> unit outcome" where
  "Update rt m =
     (if \<not> IsRunning m then Panics ErrClockNotRunning m
      else Returns () (snd (advance rt m)))"

subsection \<open>Creating a clock\<close>

datatype ClockOption = AtNow | AtTime int | DropsTicks | InLocation | StartRunning | Yielding int

text \<open>
  The clock of \<^verbatim>\<open>NewMockClock\<close> before its options: the epoch, stopped, a yield of one
  millisecond; \<open>rt\<close> is what \<^verbatim>\<open>time.Now()\<close> reads when the struct is built. Every
  object of the store is a timer in the zero state until the clock creates one in its
  place.
\<close>

definition zero_tickable :: tickable where
  "zero_tickable =
     \<lparr>isTicker = False, fn = False, chan = False, dur = 0, nxt = 0, state = tsActive\<rparr>"

definition initial_clock :: "int \<Rightarrow> mockClock" where
  "initial_clock rt =
     \<lparr>createdAt = 0, dropsTicks = False, yield = 1000000, now = 0, nStopped = 1,
      updated = rt, active = [], inactive = [], nextTickerId = 0,
      objs = (\<lambda>_. zero_tickable), sent = [], waiting = []\<rparr>"

fun applyOption :: "int \<Rightarrow> ClockOption \<Rightarrow> mockClock \<Rightarrow> unit outcome" where
  "applyOption rt AtNow m = Returns () (m\<lparr>now := rt, updated := rt\<rparr>)"
| "applyOption rt (AtTime t) m = Returns () (m\<lparr>now := t, updated := rt\<rparr>)"
| "applyOption rt DropsTicks m = Returns () (m\<lparr>dropsTicks := True\<rparr>)"
| "applyOption rt InLocation m = Returns () m"
| "applyOption rt StartRunning m = Start rt m"
| "applyOption rt (Yielding d) m = Returns () (m\<lparr>yield := max d 0\<rparr>)"

fun applyOptions :: "int \<Rightarrow> ClockOption list \<Rightarrow> mockClock \<Rightarrow> unit outcome" where
  "applyOptions rt [] m = Returns () m"
| "applyOptions rt (opt # opts) m =
     (case applyOption rt opt m of
        Returns _ m1 \<Rightarrow> applyOptions rt opts m1
      | Panics e m1 \<Rightarrow> Panics e m1
      | Stdlib m1 \<Rightarrow> Stdlib m1)"

text \<open>
  \<^verbatim>\<open>NewMockClock\<close>: \<open>rt\<close> is the reading of the system clock when the struct is built
  and \<open>rt'\<close> the later reading when the options are applied.
\<close>

definition NewMockClock :: "int \<Rightarrow> int \<Rightarrow> ClockOption list \<Rightarrow> unit outcome" where
  "NewMockClock rt rt' opts = applyOptions rt' opts (initial_clock rt)"

subsection \<open>Timers\<close>

text \<open>
  The struct \<^verbatim>\<open>Timer\<close>: \<open>stdTimer\<close> is whether the embedded \<^verbatim>\<open>*time.Timer\<close> is set,
  \<open>timer\<close> the embedded \<^verbatim>\<open>*timer\<close> (\<open>None\<close> is nil). The outcome \<open>Stdlib\<close> is a call
  handed on to a timer of the standard library, which is outside this model; on a nil
  \<^verbatim>\<open>*time.Timer\<close> such a call dereferences nil.
\<close>

record Timer =
  stdTimer :: bool
  timer :: "nat option"
  initialised :: bool

definition resetTimer :: "sorter \<Rightarrow> nat \<Rightarrow> int \<Rightarrow> mockClock \<Rightarrow> mockClock" where
  "resetTimer srt i d m =
     (let m1 = set_nxt i (now m + d) m;
          m2 = (if d = 0 then snd (timer_tick srt (Some i) (now m1) m1) else m1)
      in if state (objs m2 i) \<noteq> tsActive then timer_enterState srt i tsActive m2 else m2)"

definition timer_reset :: "sorter \<Rightarrow> nat \<Rightarrow> int \<Rightarrow> mockClock \<Rightarrow> bool \<times> mockClock" where
  "timer_reset srt i d m =
     (let wasWaiting = (state (objs m i) = tsActive) in (wasWaiting, resetTimer srt i d m))"

definition timer_stop :: "sorter \<Rightarrow> nat \<Rightarrow> mockClock \<Rightarrow> bool \<times> mockClock" where
  "timer_stop srt i m =
     (let wasActive = (state (objs m i) = tsActive) in
      (wasActive, if wasActive then timer_enterState srt i tsStopped m else m))"

definition Timer_Reset :: "sorter \<Rightarrow> Timer \<Rightarrow> int \<Rightarrow> mockClock \<Rightarrow> bool outcome" where
  "Timer_Reset srt t d m =
     (if \<not> initialised t then Panics errResetCalledOnUninitialized m
      else case timer t of
        Some i \<Rightarrow> (case timer_reset srt i d m of (b, m1) \<Rightarrow> Returns b m1)
      | None \<Rightarrow> if stdTimer t then Stdlib m else Panics nilPointerDereference m)"

definition Timer_Stop :: "sorter \<Rightarrow> Timer \<Rightarrow> mockClock \<Rightarrow> bool outcome" where
  "Timer_Stop srt t m =
     (case timer t of
        Some i \<Rightarrow> (case timer_stop srt i m of (b, m1) \<Rightarrow> Returns b m1)
      | None \<Rightarrow> if stdTimer t then Stdlib m else Panics nilPointerDereference m)"

definition newTimer :: "sorter \<Rightarrow> int \<Rightarrow> bool \<Rightarrow> mockClock \<Rightarrow> Timer \<times> mockClock" where
  "newTimer srt d f m =
     (let i = nextTickerId m;
          t = \<lparr>isTicker = False, fn = f, chan = \<not> f, dur = 0, nxt = now m + max d 0,
               state = tsActive\<rparr>;
          result = \<lparr>stdTimer = True, timer = Some i, initialised = True\<rparr>;
          m1 = activateTicker srt i (m\<lparr>objs := (objs m)(i := t)\<rparr>);
          m2 = m1\<lparr>nextTickerId := nextTickerId m1 + 1\<rparr>
      in (result, if d \<le> 0 then snd (timer_tick srt (timer result) (now m2) m2) else m2))"

definition NewTimer :: "sorter \<Rightarrow> int \<Rightarrow> mockClock \<Rightarrow> Timer \<times> mockClock" where
  "NewTimer srt d m = newTimer srt d False m"

definition AfterFunc :: "sorter \<Rightarrow> int \<Rightarrow> mockClock \<Rightarrow> Timer \<times> mockClock" where
  "AfterFunc srt d m = newTimer srt d True m"

subsection \<open>Tickers\<close>

record Ticker =
  stdTicker :: bool
  ticker :: "nat option"
  initialisedT :: bool

definition set_dur :: "nat \<Rightarrow> int \<Rightarrow> mockClock \<Rightarrow> mockClock" where
  "set_dur i d m = m\<lparr>objs := (objs m)(i := (objs m i)\<lparr>dur := d\<rparr>)\<rparr>"

definition resetTicker :: "sorter \<Rightarrow> nat \<Rightarrow> int \<Rightarrow> mockClock \<Rightarrow> unit outcome" where
  "resetTicker srt i d m =
     ticker_enterState srt i tsActive (set_nxt i (now m + max d 0) (set_dur i d m))"

definition ticker_reset :: "sorter \<Rightarrow> nat \<Rightarrow> int \<Rightarrow> mockClock \<Rightarrow> unit outcome" where
  "ticker_reset srt i d m =
     (if d \<le> 0 then Panics errNonPositiveInterval m else resetTicker srt i d m)"

definition ticker_stop :: "sorter \<Rightarrow> nat \<Rightarrow> mockClock \<Rightarrow> unit outcome" where
  "ticker_stop srt i m =
     (if state (objs m i) = tsActive then ticker_enterState srt i tsStopped m
      else Returns () m)"

definition Ticker_Reset :: "sorter \<Rightarrow> Ticker \<Rightarrow> int \<Rightarrow> mockClock \<Rightarrow> unit outcome" where
  "Ticker_Reset srt t d m =
     (if \<not> initialisedT t then Panics errResetCalledOnUninitialized m
      else case ticker t of
        Some i \<Rightarrow> ticker_reset srt i d m
      | None \<Rightarrow> if stdTicker t then Stdlib m else Panics nilPointerDereference m)"

definition Ticker_Stop :: "sorter \<Rightarrow> Ticker \<Rightarrow> mockClock \<Rightarrow> unit outcome" where
  "Ticker_Stop srt t m =
     (case ticker t of
        Some i \<Rightarrow> ticker_stop srt i m
      | None \<Rightarrow> if stdTicker t then Stdlib m else Panics nilPointerDereference m)"

definition newTicker :: "sorter \<Rightarrow> int \<Rightarrow> mockClock \<Rightarrow> (Ticker \<times> mockClock) option" where
  "newTicker srt d m =
     (let i = nextTickerId m;
          t = \<lparr>isTicker = True, fn = False, chan = True, dur = d, nxt = now m + max d 0,
               state = tsActive\<rparr>;
          result = \<lparr>stdTicker = True, ticker = Some i, initialisedT = True\<rparr>;
          m1 = activateTicker srt i (m\<lparr>objs := (objs m)(i := t)\<rparr>);
          m2 = m1\<lparr>nextTickerId := nextTickerId m1 + 1\<rparr>
      in if d \<le> 0
         then Option.bind (ticker_tick (ticker result) (now m2) m2)
                (\<lambda>(_, m3). Some (result, m3))
         else Some (result, m2))"

definition NewTicker :: "sorter \<Rightarrow> int \<Rightarrow> mockClock \<Rightarrow> (Ticker \<times> mockClock) option" where
  "NewTicker srt d m = newTicker srt d m"

text \<open>
  \<^verbatim>\<open>mockClock.Tick\<close>: the channel returned is that of the new ticker, named by the
  ticker's id; \<open>None\<close> is the nil channel.
\<close>

definition Tick :: "sorter \<Rightarrow> int \<Rightarrow> mockClock \<Rightarrow> (nat option \<times> mockClock) option" where
  "Tick srt d m =
     (if d \<le> 0 then Some (None, m)
      else Option.bind (NewTicker srt d m) (\<lambda>(t, m1). Some (ticker t, m1)))"

subsection \<open>The deadline context\<close>

text \<open>
  \<^verbatim>\<open>mockContext\<close>: \<open>doneClosed\<close> is whether the channel \<^verbatim>\<open>done\<close> has been closed, \<open>err\<close>
  the field \<^verbatim>\<open>err\<close> (\<open>None\<close> is nil) and \<open>ctx_timer\<close> the field \<^verbatim>\<open>timer\<close>. Every caller
  of \<^verbatim>\<open>cancel\<close> passes an error that is not nil (\<^verbatim>\<open>context.DeadlineExceeded\<close>,
  \<^verbatim>\<open>context.Canceled\<close>, or the error of a parent that is done), so the argument is a
  \<open>ctxError\<close>. Closing a closed channel panics.
\<close>

datatype ctxError = DeadlineExceeded | Canceled | ParentErr string

record mockContext =
  deadline :: int
  doneClosed :: bool
  err :: "ctxError option"
  ctx_timer :: "Timer option"

definition cancel :: "sorter \<Rightarrow> ctxError \<Rightarrow> mockContext \<Rightarrow> mockClock \<Rightarrow> mockContext outcome" where
  "cancel srt e c m =
     (if err c \<noteq> None then Returns c m
      else if doneClosed c then Panics closeOfClosedChannel m
      else let c1 = c\<lparr>err := Some e, doneClosed := True\<rparr> in
        (case ctx_timer c1 of
           None \<Rightarrow> Returns c1 m
         | Some t \<Rightarrow>
             (case Timer_Stop srt t m of
                Returns _ m1 \<Rightarrow> Returns (c1\<lparr>ctx_timer := None\<rparr>) m1
              | Stdlib m1 \<Rightarrow> Returns (c1\<lparr>ctx_timer := None\<rparr>) m1
              | Panics e1 m1 \<Rightarrow> Panics e1 m1)))"

text \<open>
  \<^verbatim>\<open>newMockContext\<close>. The goroutine that watches the parent runs \<^verbatim>\<open>ctx.cancel\<close> with
  the parent's error when the parent is done; \<open>early\<close> is that error when this happens
  before the deadline is looked at, and \<open>None\<close> otherwise. The boolean returned tells
  whether the cancel function returned is \<^verbatim>\<open>ctx.cancel(context.Canceled)\<close> (\<open>True\<close>) or
  the function that does nothing.
\<close>

definition newMockContext ::
  "sorter \<Rightarrow> int \<Rightarrow> ctxError option \<Rightarrow> int \<Rightarrow> mockClock \<Rightarrow> (mockContext \<times> bool) outcome" where
  "newMockContext srt rt early dl m =
     (let ctx = \<lparr>deadline = dl, doneClosed = False, err = None, ctx_timer = None\<rparr>;
          r0 = (case early of None \<Rightarrow> Returns ctx m | Some e \<Rightarrow> cancel srt e ctx m)
      in case r0 of
           Panics e1 m1 \<Rightarrow> Panics e1 m1
         | Stdlib m1 \<Rightarrow> Stdlib m1
         | Returns ctx1 m1 \<Rightarrow>
             (case Until rt dl m1 of (d, m2) \<Rightarrow>
                if d \<le> 0 then
                  (case cancel srt DeadlineExceeded ctx1 m2 of
                     Returns ctx2 m3 \<Rightarrow> Returns (ctx2, False) m3
                   | Panics e1 m3 \<Rightarrow> Panics e1 m3
                   | Stdlib m3 \<Rightarrow> Stdlib m3)
                else if err ctx1 = None then
                  (case AfterFunc srt d m2 of
                     (t, m3) \<Rightarrow> Returns (ctx1\<lparr>ctx_timer := Some t\<rparr>, True) m3)
                else Returns (ctx1, True) m2))"

text \<open>
  What can happen to a context once it exists: its cancel function is called, its
  timer fires (the callback is \<^verbatim>\<open>ctx.cancel(context.DeadlineExceeded)\<close>), or its
  parent is done and the watching goroutine cancels it with the parent's error.
\<close>

datatype ctxEvent = CancelFunc | TimerFired | ParentDone ctxError

fun ctx_step :: "sorter \<Rightarrow> bool \<Rightarrow> ctxEvent \<Rightarrow> mockContext \<Rightarrow> mockClock \<Rightarrow> mockContext outcome" where
  "ctx_step srt real CancelFunc c m = (if real then cancel srt Canceled c m else Returns c m)"
| "ctx_step srt real TimerFired c m = cancel srt DeadlineExceeded c m"
| "ctx_step srt real (ParentDone e) c m = cancel srt e c m"

text \<open>
  A history of a context: each event comes with what the clock has gone through since
  the event before it (advances, other timers and tickers), a function on the clock.
\<close>

fun ctx_run ::
  "sorter \<Rightarrow> bool \<Rightarrow> ((mockClock \<Rightarrow> mockClock) \<times> ctxEvent) list \<Rightarrow> mockContext \<Rightarrow> mockClock \<Rightarrow>
     mockContext outcome" where
  "ctx_run srt real [] c m = Returns c m"
| "ctx_run srt real ((f, ev) # evs) c m =
     (case ctx_step srt real ev c (f m) of
        Returns c1 m1 \<Rightarrow> ctx_run srt real evs c1 m1
      | Panics e m1 \<Rightarrow> Panics e m1
      | Stdlib m1 \<Rightarrow> Stdlib m1)"

subsection \<open>A sequence of calls of AdvanceBy\<close>

text \<open>
  Successive calls \<^verbatim>\<open>AdvanceBy(d)\<close>, each paired with what the system clock reads
  during the call. A call that panics or does not return ends the sequence.
\<close>

fun AdvanceBy_all :: "sorter \<Rightarrow> (int \<times> int) list \<Rightarrow> mockClock \<Rightarrow> unit outcome option" where
  "AdvanceBy_all srt [] m = Some (Returns () m)"
| "AdvanceBy_all srt ((d, rt) # calls) m =
     (case AdvanceBy srt rt d m of
        Some (Returns _ m1) \<Rightarrow> AdvanceBy_all srt calls m1
      | r \<Rightarrow> r)"

subsection \<open>Invariants and measures\<close>

text \<open>
  The registry as the operations keep it while every ticker has a positive period: the
  active list holds each id once, every id in it was handed out by the clock and names
  an object in the state \<open>tsActive\<close>.
\<close>

definition registry_ok :: "mockClock \<Rightarrow> bool" where
  "registry_ok m \<longleftrightarrow>
     distinct (active m) \<and>
     (\<forall>i\<in>set (active m).
        i < nextTickerId m \<and> state (objs m i) = tsActive \<and>
        (isTicker (objs m i) \<longrightarrow> 0 < dur (objs m i)))"

text \<open>
  The same with the inactive list: the two lists share no id, and an id in the inactive
  list names an object that is not in the state \<open>tsActive\<close>. The operations of the
  clock keep this as long as no ticker is given a period that is not positive.
\<close>

definition registry_wf :: "mockClock \<Rightarrow> bool" where
  "registry_wf m \<longleftrightarrow>
     distinct (active m @ inactive m) \<and>
     (\<forall>i\<in>set (active m).
        i < nextTickerId m \<and> state (objs m i) = tsActive \<and>
        (isTicker (objs m i) \<longrightarrow> 0 < dur (objs m i))) \<and>
     (\<forall>i\<in>set (inactive m). i < nextTickerId m \<and> state (objs m i) \<noteq> tsActive)"

text \<open>
  How many more times a tickable fires up to the time \<open>t\<close>; \<open>pending\<close> sums it over the
  active list and decreases with every turn of the loop of \<^verbatim>\<open>AdvanceTo\<close>.
\<close>

definition due :: "int \<Rightarrow> tickable \<Rightarrow> nat" where
  "due t x =
     (if t < nxt x then 0
      else if isTicker x then nat ((t - nxt x) div dur x) + 1
      else 1)"

definition pending :: "int \<Rightarrow> mockClock \<Rightarrow> nat" where
  "pending t m = sum_list (map (\<lambda>i. due t (objs m i)) (active m))"

text \<open>
  The time a ticker of positive period delivers and its next time afterwards, in closed
  form: without dropping it is the next time itself, with dropping the last multiple of
  the period that has passed.
\<close>

definition ticker_fire :: "bool \<Rightarrow> int \<Rightarrow> int \<Rightarrow> int \<Rightarrow> int \<times> int" where
  "ticker_fire drops d tnow nx =
     (if drops \<and> \<not> tnow < nx + d
      then (nx + d + ((tnow - (nx + d)) div d) * d, nx + d + ((tnow - (nx + d)) div d + 1) * d)
      else (nx, nx + d))"

text \<open>The time values delivered for one tickable, in the order of the log.\<close>

definition deliveries :: "nat \<Rightarrow> (nat \<times> int) list \<Rightarrow> int list" where
  "deliveries i log = map snd (filter (\<lambda>e. fst e = i) log)"

text \<open>
  The invariant of the loop of \<^verbatim>\<open>AdvanceTo\<close> for a ticker of period \<open>p\<close> created at the
  time \<open>T\<close> and advanced to \<open>T + n * p\<close>: \<open>nx\<close> is its next time and \<open>ds\<close> what it has
  delivered since.
\<close>

definition ticker_progress :: "bool \<Rightarrow> int \<Rightarrow> int \<Rightarrow> nat \<Rightarrow> int \<Rightarrow> int list \<Rightarrow> bool" where
  "ticker_progress dr T p n nx ds \<longleftrightarrow>
     (if dr
      then (nx = T + p \<and> ds = []) \<or> (T + int n * p < nx \<and> ds = [T + int n * p])
      else (\<exists>k\<le>n. nx = T + (int k + 1) * p \<and> ds = map (\<lambda>j. T + int j * p) [1..<Suc k]))"

definition ticker_inv ::
  "nat \<Rightarrow> int \<Rightarrow> int \<Rightarrow> nat \<Rightarrow> bool \<Rightarrow> (nat \<times> int) list \<Rightarrow> mockClock \<Rightarrow> bool" where
  "ticker_inv i T p n dr base x \<longleftrightarrow>
     i \<in> set (active x) \<and> isTicker (objs x i) \<and> dur (objs x i) = p \<and> dropsTicks x = dr \<and>
     sorted (map (nextTick x) (active x)) \<and>
     (\<exists>new. sent x = base @ new \<and>
        ticker_progress dr T p n (nxt (objs x i)) (deliveries i new))"

text \<open>
  The invariant of a deadline context: the channel is closed exactly when the error is
  set, and a timer is bound only while the error is not set; the timer bound is a mock.
\<close>

definition ctx_ok :: "mockContext \<Rightarrow> bool" where
  "ctx_ok c \<longleftrightarrow>
     (doneClosed c \<longleftrightarrow> err c \<noteq> None) \<and>
     (\<forall>t. ctx_timer c = Some t \<longrightarrow> err c = None \<and> timer t \<noteq> None)"

definition bound_timer_stopped :: "mockContext \<Rightarrow> mockClock \<Rightarrow> bool" where
  "bound_timer_stopped c m \<longleftrightarrow>
     (case ctx_timer c of
        None \<Rightarrow> True
      | Some t \<Rightarrow> (case timer t of None \<Rightarrow> True | Some i \<Rightarrow> state (objs m i) \<noteq> tsActive))"

subsection \<open>Concrete clocks\<close>

text \<open>
  A default clock with two timers (ids 0 and 1, due at 2 and 5), the same with a ticker
  of period 3 (id 2), and handles for them.
\<close>

definition demo_clock :: mockClock where
  "demo_clock = snd (NewTimer sort_key 5 (snd (NewTimer sort_key 2 (initial_clock 0))))"

definition demo_ticker_clock :: mockClock where
  "demo_ticker_clock =
     (case NewTicker sort_key 3 demo_clock of Some (_, m) \<Rightarrow> m | None \<Rightarrow> demo_clock)"

definition demo_timer :: Timer where
  "demo_timer = \<lparr>stdTimer = True, timer = Some 0, initialised = True\<rparr>"

definition demo_ticker :: Ticker where
  "demo_ticker = \<lparr>stdTicker = True, ticker = Some 2, initialisedT = True\<rparr>"

text \<open>\<open>demo_ticker_clock\<close> after its ticker was stopped.\<close>

definition stopped_ticker_clock :: mockClock where
  "stopped_ticker_clock = disableTicker 2 (set_state 2 tsStopped demo_ticker_clock)"

text \<open>The zero values \<^verbatim>\<open>Timer{}\<close> and \<^verbatim>\<open>Ticker{}\<close>.\<close>

definition zero_Timer :: Timer where
  "zero_Timer = \<lparr>stdTimer = False, timer = None, initialised = False\<rparr>"

definition zero_Ticker :: Ticker where
  "zero_Ticker = \<lparr>stdTicker = False, ticker = None, initialisedT = False\<rparr>"

text \<open>
  The clock of \<^verbatim>\<open>NewMockClock(StartRunning())\<close>, built when the system clock reads
  \<open>rt\<close> and started when it reads \<open>rt'\<close>, and the clock of
  \<^verbatim>\<open>NewMockClock(DropsTicks())\<close>.
\<close>

definition running_clock :: "int \<Rightarrow> int \<Rightarrow> mockClock" where
  "running_clock rt rt' =
     (case NewMockClock rt rt' [StartRunning] of Returns _ m \<Rightarrow> m | _ \<Rightarrow> initial_clock rt)"

definition dropping_clock :: mockClock where
  "dropping_clock = (case NewMockClock 0 0 [DropsTicks] of Returns _ m \<Rightarrow> m | _ \<Rightarrow> initial_clock 0)"

text \<open>
  The clock of \<^verbatim>\<open>NewMockClock(Yielding(0))\<close>, the same after \<^verbatim>\<open>AfterFunc(2, f)\<close>, and
  that one after \<^verbatim>\<open>AdvanceBy(5)\<close>.
\<close>

definition unyielding_clock :: mockClock where
  "unyielding_clock =
     (case NewMockClock 0 0 [Yielding 0] of Returns _ m \<Rightarrow> m | _ \<Rightarrow> initial_clock 0)"

definition unyielding_timer_clock :: mockClock where
  "unyielding_timer_clock = snd (AfterFunc sort_key 2 unyielding_clock)"

definition unyielding_advanced :: mockClock where
  "unyielding_advanced =
     (case AdvanceBy sort_key 7 5 unyielding_timer_clock of
        Some (Returns _ m) \<Rightarrow> m
      | _ \<Rightarrow> unyielding_timer_clock)"

text \<open>A sort that meets \<open>sort_contract\<close> and is not stable.\<close>

definition rev_sort :: sorter where
  "rev_sort key xs = sort_key key (rev xs)"

text \<open>
  A timer due at 10 (id 0), then a ticker of period 5 (id 1), then \<^verbatim>\<open>AdvanceBy(5)\<close>,
  with the stable insertion sort \<open>sort_key\<close>.
\<close>

definition overtaken_clock :: mockClock where
  "overtaken_clock =
     (case NewTicker sort_key 5 (snd (NewTimer sort_key 10 (initial_clock 0))) of
        Some (_, m) \<Rightarrow> (case AdvanceBy sort_key 0 5 m of Some (Returns _ m1) \<Rightarrow> m1 | _ \<Rightarrow> m)
      | None \<Rightarrow> initial_clock 0)"

text \<open>
  The context that \<^verbatim>\<open>newMockContext\<close> returns for the deadline 10 on \<open>demo_clock\<close>, and
  the clock after it.
\<close>

definition demo_ctx :: mockContext where
  "demo_ctx = \<lparr>deadline = 10, doneClosed = False, err = None,
                ctx_timer = Some \<lparr>stdTimer = True, timer = Some 2, initialised = True\<rparr>\<rparr>"

definition demo_ctx_clock :: mockClock where
  "demo_ctx_clock = snd (AfterFunc sort_key 10 demo_clock)"

text \<open>The clock advanced by 10, which takes it to the deadline of \<open>demo_ctx\<close>.\<close>

definition advance_to_deadline :: "mockClock \<Rightarrow> mockClock" where
  "advance_to_deadline m = (case AdvanceBy sort_key 100 10 m of Some (Returns _ m1) \<Rightarrow> m1 | _ \<Rightarrow> m)"

section \<open>Properties\<close>

subsection \<open>The sort\<close>

lemma sort_contract_mset: "sort_contract srt \<Longrightarrow> mset (srt key xs) = mset xs"
  by (simp add: sort_contract_def)

lemma sort_contract_sorted: "sort_contract srt \<Longrightarrow> sorted (map key (srt key xs))"
  by (simp add: sort_contract_def)

lemma sort_contract_set: "sort_contract srt \<Longrightarrow> set (srt key xs) = set xs"
  using sort_contract_mset [of srt key xs] by (metis set_mset_mset)

lemma sort_contract_distinct: "sort_contract srt \<Longrightarrow> distinct (srt key xs) = distinct xs"
  using sort_contract_mset [of srt key xs] by (metis mset_eq_imp_distinct_iff)

lemma sort_contract_sum:
  fixes f :: "nat \<Rightarrow> nat"
  assumes "sort_contract srt"
  shows "sum_list (map f (srt key xs)) = sum_list (map f xs)"
proof -
  have "mset (map f (srt key xs)) = mset (map f xs)"
    using sort_contract_mset [OF assms, of key xs] by simp
  then have "sum_mset (mset (map f (srt key xs))) = sum_mset (mset (map f xs))" by simp
  then show ?thesis by (simp only: sum_mset_sum_list)
qed

lemma sum_list_cong_set:
  "(\<And>x. x \<in> set xs \<Longrightarrow> f x = g x) \<Longrightarrow> sum_list (map f xs) = sum_list (map g xs)"
  by (induction xs) auto

lemma sort_contract_sort_key: "sort_contract sort_key"
  by (simp add: sort_contract_def)

lemma sort_contract_rev_sort: "sort_contract rev_sort"
  by (simp add: sort_contract_def rev_sort_def)

lemma nextTick_fun: "nextTick m = (\<lambda>i. nxt (objs m i))"
  by (rule ext) (simp add: nextTick_def)

subsection \<open>The loop of a ticker that drops ticks\<close>

lemma dropLoop_closed:
  assumes d: "0 < d"
  shows "dropLoop d tnow at nx =
     Some (if tnow < nx then (at, nx)
           else (nx + ((tnow - nx) div d) * d, nx + ((tnow - nx) div d + 1) * d))"
proof (induction "nat (tnow - nx + 1)" arbitrary: at nx rule: less_induct)
  case less
  show ?case
  proof (cases "tnow < nx")
    case True
    then show ?thesis by (subst dropLoop.simps) simp
  next
    case False
    have step: "dropLoop d tnow at nx = dropLoop d tnow nx (nx + d)"
      using False by (subst dropLoop.simps) simp
    have "nat (tnow - (nx + d) + 1) < nat (tnow - nx + 1)" using False d by simp
    from less [OF this, of nx]
    have ih: "dropLoop d tnow nx (nx + d) =
      Some (if tnow < nx + d then (nx, nx + d)
            else (nx + d + ((tnow - (nx + d)) div d) * d,
                  nx + d + ((tnow - (nx + d)) div d + 1) * d))" .
    show ?thesis
    proof (cases "tnow < nx + d")
      case True
      with False d have "(tnow - nx) div d = 0" by (simp add: div_pos_pos_trivial)
      with ih step True False show ?thesis by simp
    next
      case F2: False
      have "(tnow - nx) div d = (tnow - (nx + d)) div d + 1"
      proof -
        have "d \<noteq> 0" using d by simp
        then have "((tnow - (nx + d)) + d) div d = (tnow - (nx + d)) div d + 1"
          by (rule div_add_self2)
        moreover have "(tnow - (nx + d)) + d = tnow - nx" by simp
        ultimately show ?thesis by simp
      qed
      with ih step F2 False show ?thesis by (simp add: algebra_simps)
    qed
  qed
qed

lemma dropLoop_diverges_aux:
  assumes h: "dropLoop d tnow at nx = Some r"
  shows "\<not> (d \<le> 0 \<and> nx \<le> tnow)"
proof (rule dropLoop.raw_induct [where P = "\<lambda>d tnow at nx r. \<not> (d \<le> 0 \<and> nx \<le> tnow)", OF _ h])
  fix f :: "int \<Rightarrow> int \<Rightarrow> int \<Rightarrow> int \<Rightarrow> (int \<times> int) option" and d tnow at nx r
  assume ih: "\<And>d tnow at nx r. f d tnow at nx = Some r \<Longrightarrow> \<not> (d \<le> 0 \<and> nx \<le> tnow)"
    and eq: "(if \<not> tnow < nx then f d tnow nx (nx + d) else Some (at, nx)) = Some r"
  show "\<not> (d \<le> 0 \<and> nx \<le> tnow)"
  proof
    assume a: "d \<le> 0 \<and> nx \<le> tnow"
    with eq have "f d tnow nx (nx + d) = Some r" by simp
    from ih [OF this] a show False by simp
  qed
qed

lemma dropLoop_diverges: "d \<le> 0 \<Longrightarrow> nx \<le> tnow \<Longrightarrow> dropLoop d tnow at nx = None"
  using dropLoop_diverges_aux[of d tnow at nx] by (cases "dropLoop d tnow at nx") auto

lemma ticker_tick_closed:
  assumes "state (objs m i) = tsActive" "\<not> tnow < nxt (objs m i)" "0 < dur (objs m i)"
  shows "ticker_tick (Some i) tnow m =
    (case ticker_fire (dropsTicks m) (dur (objs m i)) tnow (nxt (objs m i)) of
       (at, nx) \<Rightarrow> Some (True, go_deliver i at (set_nxt i nx m)))"
  using assms
  by (simp add: ticker_tick_def Let_def ticker_fire_def dropLoop_closed)

lemma ticker_fire_nx:
  assumes "0 < d" "\<not> tnow < nx"
  shows "nx + d \<le> snd (ticker_fire drops d tnow nx)"
    and "drops \<Longrightarrow> tnow < snd (ticker_fire drops d tnow nx)"
proof -
  have a: "0 \<le> (tnow - (nx + d)) div d" if "\<not> tnow < nx + d"
    using that assms(1) by (simp add: pos_imp_zdiv_nonneg_iff)
  then have "0 \<le> ((tnow - (nx + d)) div d + 1) * d" if "\<not> tnow < nx + d"
    using that assms(1) by simp
  then show "nx + d \<le> snd (ticker_fire drops d tnow nx)"
    by (simp add: ticker_fire_def)
  show "tnow < snd (ticker_fire drops d tnow nx)" if drops
  proof (cases "tnow < nx + d")
    case True
    then show ?thesis by (simp add: ticker_fire_def)
  next
    case False
    define q where "q = (tnow - (nx + d)) div d"
    define r where "r = (tnow - (nx + d)) mod d"
    have "tnow - (nx + d) = q * d + r" by (simp add: q_def r_def)
    moreover have "r < d" using assms(1) by (simp add: r_def)
    ultimately have "tnow < nx + d + (q + 1) * d" by (simp add: algebra_simps)
    moreover have "snd (ticker_fire drops d tnow nx) = nx + d + (q + 1) * d"
      using False that by (simp add: ticker_fire_def q_def)
    ultimately show ?thesis by simp
  qed
qed

lemma ticker_fire_no_drop: "ticker_fire False d tnow nx = (nx, nx + d)"
  by (simp add: ticker_fire_def)

lemma ticker_fire_drop_all:
  assumes "0 < p" "1 \<le> n"
  shows "ticker_fire True p (T + int n * p) (T + p) = (T + int n * p, T + int n * p + p)"
proof (cases "n = 1")
  case True
  then show ?thesis using assms by (simp add: ticker_fire_def)
next
  case False
  then have n: "2 \<le> n" using assms(2) by simp
  have eq: "T + int n * p - (T + p + p) = (int n - 2) * p" by (simp add: algebra_simps)
  have "(int n - 2) * p div p = int n - 2" using assms(1) by simp
  moreover have "\<not> T + int n * p < T + p + p"
  proof -
    have "2 * p \<le> int n * p" using n assms(1) by (intro mult_right_mono) simp_all
    then show ?thesis by simp
  qed
  ultimately show ?thesis
    by (simp add: ticker_fire_def eq algebra_simps)
qed

lemma due_decreases:
  assumes "isTicker x" "0 < dur x" "\<not> t < nxt x" "nxt x + dur x \<le> nx"
  shows "due t (x\<lparr>nxt := nx\<rparr>) < due t x"
proof (cases "t < nx")
  case True
  then show ?thesis using assms by (simp add: due_def)
next
  case False
  have "(t - nx) div dur x \<le> (t - (nxt x + dur x)) div dur x"
    using assms by (intro zdiv_mono1) simp_all
  also have "(t - (nxt x + dur x)) div dur x = (t - nxt x) div dur x - 1"
  proof -
    have "dur x \<noteq> 0" using assms by simp
    then have "((t - (nxt x + dur x)) + dur x) div dur x = (t - (nxt x + dur x)) div dur x + 1"
      by (rule div_add_self2)
    moreover have "(t - (nxt x + dur x)) + dur x = t - nxt x" by simp
    ultimately show ?thesis by simp
  qed
  finally have le: "(t - nx) div dur x \<le> (t - nxt x) div dur x - 1" .
  have "0 \<le> (t - nx) div dur x" using False assms by (simp add: pos_imp_zdiv_nonneg_iff)
  with le show ?thesis using False assms by (simp add: due_def)
qed

subsection \<open>The lists\<close>

lemma tickables_take_found:
  "i \<in> set a \<Longrightarrow> tickables_take i a = (tickables_remove i a, Some i)"
  by (induction a) (auto simp: tickables_take_def split: option.splits)

lemma tickables_remove_set:
  "distinct a \<Longrightarrow> set (tickables_remove i a) = set a - {i}"
  by (induction a) auto

lemma tickables_remove_distinct:
  "distinct a \<Longrightarrow> distinct (tickables_remove i a)"
  by (induction a) (auto simp: tickables_remove_set)

lemma tickables_take_missing:
  "i \<notin> set a \<Longrightarrow> tickables_take i a = (a, None)"
  by (induction a) (auto simp: tickables_take_def split: option.splits)

lemma disableTicker_objs [simp]: "objs (disableTicker i m) = objs m"
  by (simp add: disableTicker_def split: prod.splits option.splits)

subsection \<open>The goroutine of a tick\<close>

lemma go_deliver_simps [simp]:
  "objs (go_deliver i at m) = objs m"
  "active (go_deliver i at m) = active m"
  "inactive (go_deliver i at m) = inactive m"
  "nextTickerId (go_deliver i at m) = nextTickerId m"
  "nStopped (go_deliver i at m) = nStopped m"
  "dropsTicks (go_deliver i at m) = dropsTicks m"
  "yield (go_deliver i at m) = yield m"
  "sent (go_deliver i at m) = sent m @ [(i, at)]"
  by (simp_all add: go_deliver_def Let_def)

lemma go_deliver_yielding:
  "0 < yield m \<Longrightarrow> go_deliver i at m = m\<lparr>sent := sent m @ [(i, at)], now := at\<rparr>"
  by (simp add: go_deliver_def Let_def)

lemma go_deliver_waiting:
  "waiting (go_deliver i at m) = (if 0 < yield m then waiting m else waiting m @ [at])"
  "now (go_deliver i at m) = (if 0 < yield m then at else now m)"
  by (simp_all add: go_deliver_def Let_def)

lemma settled_idle: "waiting m = [] \<Longrightarrow> settled m = m"
  by (simp add: settled_def)

subsection \<open>One turn of the loop of AdvanceTo\<close>

lemma registry_okD:
  assumes "registry_ok m" "active m = h # rest"
  shows "state (objs m h) = tsActive" "h \<notin> set rest" "distinct rest"
    "isTicker (objs m h) \<Longrightarrow> 0 < dur (objs m h)"
  using assms by (auto simp: registry_ok_def)

lemma mockClock_tick_idle:
  "active m = [] \<or> t < nextTick m (hd (active m)) \<Longrightarrow> mockClock_tick srt t m = Some (False, m)"
  by (cases "active m") (auto simp: mockClock_tick_def)

lemma mockClock_tick_ticker:
  assumes ok: "registry_ok m" and a: "active m = h # rest" and due: "\<not> t < nextTick m h"
    and tk: "isTicker (objs m h)"
  shows "mockClock_tick srt t m =
    (case ticker_fire (dropsTicks m) (dur (objs m h)) t (nxt (objs m h)) of
       (at, nx) \<Rightarrow>
         Some (True, (go_deliver h at (set_nxt h nx m))
                 \<lparr>active := srt (nextTick (set_nxt h nx m)) (active m)\<rparr>))"
proof -
  have "ticker_tick (Some h) t m =
    (case ticker_fire (dropsTicks m) (dur (objs m h)) t (nxt (objs m h)) of
       (at, nx) \<Rightarrow> Some (True, go_deliver h at (set_nxt h nx m)))"
    using registry_okD [OF ok a] due tk by (intro ticker_tick_closed) (simp_all add: nextTick_def)
  then show ?thesis
    using a due tk
    by (simp add: mockClock_tick_def tickable_tick_def nextTick_fun set_nxt_def split: prod.splits)
qed

lemma mockClock_tick_timer:
  assumes ok: "registry_ok m" and a: "active m = h # rest" and due: "\<not> t < nextTick m h"
    and tk: "\<not> isTicker (objs m h)"
  shows "mockClock_tick srt t m =
    Some (True,
      (let m1 = (set_state h tsExpired m)\<lparr>active := rest, inactive := inactive m @ [h]\<rparr>;
           m2 = (if fn (objs m h) \<or> chan (objs m h)
                 then go_deliver h (nxt (objs m h)) m1
                 else m1)
       in m2\<lparr>active := srt (nextTick m1) rest\<rparr>))"
  using registry_okD(1) [OF ok a] a due tk
  by (simp add: mockClock_tick_def tickable_tick_def timer_tick_def timer_enterState_def
      disableTicker_def tickables_take_def nextTick_fun set_state_def Let_def)

lemma mockClock_tick_idleD:
  assumes ok: "registry_ok m" and res: "mockClock_tick srt t m = Some (False, m')"
  shows "active m = [] \<or> t < nextTick m (hd (active m))"
proof (rule ccontr)
  assume "\<not> ?thesis"
  then obtain h rest where a: "active m = h # rest" and due: "\<not> t < nextTick m h"
    by (cases "active m") auto
  show False
    using mockClock_tick_ticker [OF ok a due, of srt] mockClock_tick_timer [OF ok a due, of srt] res
    by (cases "isTicker (objs m h)") (auto split: prod.splits)
qed

lemma tick_progress_ticker:
  assumes sc: "sort_contract srt" and ok: "registry_ok m" and a: "active m = h # rest"
    and due: "\<not> t < nextTick m h" and tk: "isTicker (objs m h)"
    and res: "mockClock_tick srt t m = Some (b, m')"
  shows "b" "registry_ok m'" "pending t m' < pending t m"
proof -
  obtain at nx where f: "ticker_fire (dropsTicks m) (dur (objs m h)) t (nxt (objs m h)) = (at, nx)"
    by (cases "ticker_fire (dropsTicks m) (dur (objs m h)) t (nxt (objs m h))")
  have m': "m' = (go_deliver h at (set_nxt h nx m))
                 \<lparr>active := srt (nextTick (set_nxt h nx m)) (active m)\<rparr>" and b: b
    using mockClock_tick_ticker [OF ok a due tk, of srt] res f by simp_all
  show b by (rule b)
  have hd: "state (objs m h) = tsActive" "h \<notin> set rest" "distinct rest" "0 < dur (objs m h)"
    using registry_okD [OF ok a] tk by simp_all
  have nx: "nxt (objs m h) + dur (objs m h) \<le> nx"
    using ticker_fire_nx(1) [OF hd(4), of t "nxt (objs m h)" "dropsTicks m"] due f
    by (simp add: nextTick_def)
  show "registry_ok m'"
    using ok a
    by (auto simp: registry_ok_def m' set_nxt_def sort_contract_set [OF sc]
        sort_contract_distinct [OF sc])
  have "pending t m' = sum_list (map (\<lambda>i. due t (objs m' i)) (h # rest))"
    by (simp add: pending_def m' a sort_contract_sum [OF sc] set_nxt_def)
  also have "\<dots> = due t ((objs m h)\<lparr>nxt := nx\<rparr>) + sum_list (map (\<lambda>i. due t (objs m' i)) rest)"
    by (simp add: m' set_nxt_def)
  also have "sum_list (map (\<lambda>i. due t (objs m' i)) rest) = sum_list (map (\<lambda>i. due t (objs m i)) rest)"
    using hd(2) by (intro sum_list_cong_set) (auto simp: m' set_nxt_def)
  also have "due t ((objs m h)\<lparr>nxt := nx\<rparr>) < due t (objs m h)"
    using due_decreases [OF tk hd(4) _ nx, of t] due by (simp add: nextTick_def)
  finally show "pending t m' < pending t m" by (simp add: pending_def a)
qed

lemma tick_progress_timer:
  assumes sc: "sort_contract srt" and ok: "registry_ok m" and a: "active m = h # rest"
    and due: "\<not> t < nextTick m h" and tk: "\<not> isTicker (objs m h)"
    and res: "mockClock_tick srt t m = Some (b, m')"
  shows "b" "registry_ok m'" "pending t m' < pending t m"
proof -
  have hd: "state (objs m h) = tsActive" "h \<notin> set rest" "distinct rest"
    using registry_okD [OF ok a] by simp_all
  from mockClock_tick_timer [OF ok a due tk, of srt] res
  have b: b and ob: "objs m' = (objs m)(h := (objs m h)\<lparr>state := tsExpired\<rparr>)"
    and ac: "active m' = srt (nextTick (set_state h tsExpired m)) rest"
    and ni: "nextTickerId m' = nextTickerId m"
    by (auto simp: Let_def set_state_def nextTick_fun split: if_splits)
  show b by (rule b)
  show "registry_ok m'"
    using ok a hd
    by (auto simp: registry_ok_def ob ac ni sort_contract_set [OF sc] sort_contract_distinct [OF sc])
  have "pending t m' = sum_list (map (\<lambda>i. due t (objs m' i)) rest)"
    by (simp add: pending_def ac sort_contract_sum [OF sc])
  also have "\<dots> = sum_list (map (\<lambda>i. due t (objs m i)) rest)"
    using hd(2) by (intro sum_list_cong_set) (auto simp: ob)
  also have "\<dots> < due t (objs m h) + sum_list (map (\<lambda>i. due t (objs m i)) rest)"
    using due tk by (simp add: due_def nextTick_def)
  finally show "pending t m' < pending t m" by (simp add: pending_def a)
qed

lemma tick_progress:
  assumes sc: "sort_contract srt" and ok: "registry_ok m"
  shows "mockClock_tick srt t m = Some (False, m) \<or>
    (\<exists>m'. mockClock_tick srt t m = Some (True, m') \<and> registry_ok m' \<and> pending t m' < pending t m)"
proof (cases "active m = [] \<or> t < nextTick m (hd (active m))")
  case True
  then show ?thesis by (simp add: mockClock_tick_idle)
next
  case False
  then obtain h rest where a: "active m = h # rest" and due: "\<not> t < nextTick m h"
    by (cases "active m") auto
  have "\<exists>r. mockClock_tick srt t m = Some r"
    using mockClock_tick_ticker [OF ok a due, of srt] mockClock_tick_timer [OF ok a due, of srt]
    by (cases "isTicker (objs m h)") (auto split: prod.splits)
  then obtain b m' where res: "mockClock_tick srt t m = Some (b, m')" by auto
  show ?thesis
    using tick_progress_ticker [OF sc ok a due _ res] tick_progress_timer [OF sc ok a due _ res] res
    by (cases "isTicker (objs m h)") auto
qed

lemma mockClock_tick_frame:
  assumes "mockClock_tick srt t m = Some (b, m')"
  shows "nStopped m' = nStopped m" "dropsTicks m' = dropsTicks m"
    "nextTickerId m' = nextTickerId m" "yield m' = yield m"
    "0 < yield m \<Longrightarrow> waiting m' = waiting m"
  using assms
  by (auto simp: mockClock_tick_def tickable_tick_def ticker_tick_def timer_tick_def
      timer_enterState_def disableTicker_def tickables_take_def set_state_def set_nxt_def Let_def
      go_deliver_waiting
      split: list.splits if_splits option.splits prod.splits Option.bind_splits)

lemma mockClock_tick_sorted:
  assumes "sort_contract srt" "mockClock_tick srt t m = Some (True, m')"
  shows "sorted (map (nextTick m') (active m'))"
  using assms sort_contract_sorted [OF assms(1)]
  by (auto simp: mockClock_tick_def Option.bind_eq_Some_conv nextTick_fun
      split: list.splits if_splits)

subsection \<open>The loop ends\<close>

lemma tick_loop_rule:
  assumes sc: "sort_contract srt"
    and step: "\<And>m m'. registry_ok m \<Longrightarrow> P m \<Longrightarrow> mockClock_tick srt t m = Some (True, m') \<Longrightarrow> P m'"
  shows "registry_ok m \<Longrightarrow> P m \<Longrightarrow>
    \<exists>m'. tick_loop srt t m = Some m' \<and> registry_ok m' \<and> P m' \<and>
          mockClock_tick srt t m' = Some (False, m')"
proof (induction "pending t m" arbitrary: m rule: less_induct)
  case less
  from tick_progress [OF sc less.prems(1), of t]
  show ?case
  proof
    assume idle: "mockClock_tick srt t m = Some (False, m)"
    then have "tick_loop srt t m = Some m" by (subst tick_loop.simps) simp
    with idle less.prems show ?thesis by simp
  next
    assume "\<exists>m'. mockClock_tick srt t m = Some (True, m') \<and> registry_ok m' \<and>
      pending t m' < pending t m"
    then obtain m1 where m1: "mockClock_tick srt t m = Some (True, m1)" "registry_ok m1"
      "pending t m1 < pending t m" by auto
    have "P m1" using step [OF less.prems m1(1)] .
    from less.hyps [OF m1(3) m1(2) this]
    obtain m' where m': "tick_loop srt t m1 = Some m'" "registry_ok m'" "P m'"
      "mockClock_tick srt t m' = Some (False, m')" by auto
    have "tick_loop srt t m = tick_loop srt t m1"
      using m1(1) by (subst tick_loop.simps) simp
    with m' show ?thesis by simp
  qed
qed

lemma tick_loop_nStopped:
  assumes h: "tick_loop srt t m = Some m'"
  shows "nStopped m' = nStopped m"
proof (rule tick_loop.raw_induct [where P = "\<lambda>srt t m m'. nStopped m' = nStopped m", OF _ h])
  fix f :: "sorter \<Rightarrow> int \<Rightarrow> mockClock \<Rightarrow> mockClock option" and srt t m m'
  assume ih: "\<And>srt t m m'. f srt t m = Some m' \<Longrightarrow> nStopped m' = nStopped m"
    and eq: "Option.bind (mockClock_tick srt t m) (\<lambda>(b, m1). if b then f srt t m1 else Some m1) = Some m'"
  from eq obtain b m1 where s: "mockClock_tick srt t m = Some (b, m1)"
    and r: "(if b then f srt t m1 else Some m1) = Some m'"
    by (auto simp: Option.bind_eq_Some_conv)
  have "nStopped m1 = nStopped m" using mockClock_tick_frame(1) [OF s] .
  moreover have "nStopped m' = nStopped m1" using r ih by (cases b) auto
  ultimately show "nStopped m' = nStopped m" by simp
qed

lemma tick_loop_yield:
  assumes h: "tick_loop srt t m = Some m'"
  shows "yield m' = yield m \<and> (0 < yield m \<longrightarrow> waiting m' = waiting m)"
proof (rule tick_loop.raw_induct
    [where P = "\<lambda>srt t m m'. yield m' = yield m \<and> (0 < yield m \<longrightarrow> waiting m' = waiting m)",
     OF _ h])
  fix f :: "sorter \<Rightarrow> int \<Rightarrow> mockClock \<Rightarrow> mockClock option" and srt t m m'
  assume ih: "\<And>srt t m m'. f srt t m = Some m' \<Longrightarrow>
      yield m' = yield m \<and> (0 < yield m \<longrightarrow> waiting m' = waiting m)"
    and eq: "Option.bind (mockClock_tick srt t m) (\<lambda>(b, m1). if b then f srt t m1 else Some m1) = Some m'"
  from eq obtain b m1 where s: "mockClock_tick srt t m = Some (b, m1)"
    and r: "(if b then f srt t m1 else Some m1) = Some m'"
    by (auto simp: Option.bind_eq_Some_conv)
  have 1: "yield m1 = yield m" "0 < yield m \<Longrightarrow> waiting m1 = waiting m"
    using mockClock_tick_frame(4,5) [OF s] by simp_all
  have 2: "yield m' = yield m1 \<and> (0 < yield m1 \<longrightarrow> waiting m' = waiting m1)"
    using r ih by (cases b) auto
  from 1 2 show "yield m' = yield m \<and> (0 < yield m \<longrightarrow> waiting m' = waiting m)" by simp
qed

lemma registry_ok_frame:
  "registry_ok (m\<lparr>now := a, updated := b\<rparr>) = registry_ok m"
  by (simp add: registry_ok_def)

lemma AdvanceTo_ok:
  assumes sc: "sort_contract srt" and ok: "registry_ok m" and le: "now m \<le> t"
  shows "\<exists>m'. AdvanceTo srt rt t m = Some (Returns () m') \<and> registry_ok m' \<and> now m' = t
    \<and> nStopped m' = nStopped m"
proof -
  have "\<exists>m'. tick_loop srt t m = Some m' \<and> registry_ok m' \<and> nStopped m' = nStopped m \<and>
          mockClock_tick srt t m' = Some (False, m')"
    using ok
    by (intro tick_loop_rule [OF sc, where P = "\<lambda>x. nStopped x = nStopped m"])
       (simp_all add: mockClock_tick_frame)
  then obtain m1 where "tick_loop srt t m = Some m1" "registry_ok m1" "nStopped m1 = nStopped m"
    by auto
  then show ?thesis using le by (simp add: AdvanceTo_def registry_ok_frame)
qed

lemma AdvanceBy_returns:
  assumes "AdvanceBy srt rt d m = Some (Returns u m')"
  shows "now m' = now m + d" "nStopped m' = nStopped m"
  using assms tick_loop_nStopped
  by (auto simp: AdvanceBy_def AdvanceTo_def Option.bind_eq_Some_conv split: if_splits)

lemma AdvanceBy_yield:
  assumes "AdvanceBy srt rt d m = Some (Returns u m')"
  shows "yield m' = yield m" "0 < yield m \<Longrightarrow> waiting m' = waiting m"
  using assms tick_loop_yield
  by (auto simp: AdvanceBy_def AdvanceTo_def Option.bind_eq_Some_conv split: if_splits)

lemma AdvanceBy_all_ok:
  assumes sc: "sort_contract srt"
  shows "registry_ok m \<Longrightarrow> \<forall>c\<in>set calls. 0 \<le> fst c \<Longrightarrow>
    \<exists>m'. AdvanceBy_all srt calls m = Some (Returns () m') \<and> registry_ok m' \<and>
      now m' = now m + sum_list (map fst calls) \<and> nStopped m' = nStopped m"
proof (induction calls arbitrary: m)
  case Nil
  then show ?case by simp
next
  case (Cons c calls)
  obtain d rt where c: "c = (d, rt)" by (cases c)
  have d: "0 \<le> d" using Cons.prems(2) c by simp
  from AdvanceTo_ok [OF sc Cons.prems(1), of "now m + d" rt] d
  obtain m1 where m1: "AdvanceBy srt rt d m = Some (Returns () m1)" "registry_ok m1"
    "now m1 = now m + d" "nStopped m1 = nStopped m"
    by (auto simp: AdvanceBy_def)
  from Cons.IH [OF m1(2)] Cons.prems(2)
  obtain m' where "AdvanceBy_all srt calls m1 = Some (Returns () m')" "registry_ok m'"
    "now m' = now m1 + sum_list (map fst calls)" "nStopped m' = nStopped m1" by auto
  with m1 c show ?case by simp
qed

lemma AdvanceBy_all_returns:
  "AdvanceBy_all srt calls m = Some (Returns u m') \<Longrightarrow>
     now m' = now m + sum_list (map fst calls) \<and> nStopped m' = nStopped m"
proof (induction calls arbitrary: m)
  case Nil
  then show ?case by simp
next
  case (Cons c calls)
  obtain d rt where c: "c = (d, rt)" by (cases c)
  from Cons.prems c obtain m1 where m1: "AdvanceBy srt rt d m = Some (Returns () m1)"
    "AdvanceBy_all srt calls m1 = Some (Returns u m')"
    by (auto split: option.splits outcome.splits)
  from Cons.IH [OF m1(2)] AdvanceBy_returns [OF m1(1)] c show ?case by simp
qed

lemma AdvanceBy_all_yield:
  "AdvanceBy_all srt calls m = Some (Returns u m') \<Longrightarrow> 0 < yield m \<Longrightarrow>
     waiting m' = waiting m"
proof (induction calls arbitrary: m)
  case Nil
  then show ?case by simp
next
  case (Cons c calls)
  obtain d rt where c: "c = (d, rt)" by (cases c)
  from Cons.prems c obtain m1 where m1: "AdvanceBy srt rt d m = Some (Returns () m1)"
    "AdvanceBy_all srt calls m1 = Some (Returns u m')"
    by (auto split: option.splits outcome.splits)
  from Cons.IH [OF m1(2)] AdvanceBy_yield [OF m1(1)] Cons.prems(2) show ?case by simp
qed

lemma AdvanceBy_all_append:
  "AdvanceBy_all srt (xs @ ys) m = Some (Returns u m') \<Longrightarrow>
     \<exists>m1. AdvanceBy_all srt xs m = Some (Returns () m1) \<and>
          AdvanceBy_all srt ys m1 = Some (Returns u m')"
proof (induction xs arbitrary: m)
  case Nil
  then show ?case by simp
next
  case (Cons c xs)
  obtain d rt where c: "c = (d, rt)" by (cases c)
  from Cons.prems c obtain m1 where m1: "AdvanceBy srt rt d m = Some (Returns () m1)"
    "AdvanceBy_all srt (xs @ ys) m1 = Some (Returns u m')"
    by (auto split: option.splits outcome.splits)
  from Cons.IH [OF m1(2)] m1(1) c show ?case by simp
qed

lemma Now_stopped: "\<not> IsRunning m \<Longrightarrow> Now rt m = (now m, m)"
  by (simp add: Now_def advance_def)

lemma sum_take_mono:
  fixes xs :: "int list"
  assumes "\<forall>x\<in>set xs. 0 \<le> x" "j \<le> k"
  shows "sum_list (take j xs) \<le> sum_list (take k xs)"
proof -
  have "take k xs = take j xs @ drop j (take k xs)"
    using assms(2) by (metis append_take_drop_id min.absorb1 take_take)
  then have "sum_list (take k xs) = sum_list (take j xs) + sum_list (drop j (take k xs))"
    by (metis sum_list_append)
  moreover have "0 \<le> sum_list (drop j (take k xs))"
    using assms(1) by (intro sum_list_nonneg) (auto dest!: in_set_dropD in_set_takeD)
  ultimately show ?thesis by simp
qed

subsection \<open>The registry under the operations\<close>

text \<open>
  \<open>registry_wf\<close> holds of a new clock and is kept by creating timers, creating tickers
  with a positive period, stopping, resetting and advancing; it gives \<open>registry_ok\<close>.
\<close>

lemma registry_wf_ok: "registry_wf m \<Longrightarrow> registry_ok m"
  by (auto simp: registry_wf_def registry_ok_def)

lemma applyOptions_lists:
  "applyOptions rt opts m = Returns u m' \<Longrightarrow>
     active m' = active m \<and> inactive m' = inactive m \<and> nextTickerId m' = nextTickerId m \<and>
     objs m' = objs m"
proof (induction opts arbitrary: m)
  case Nil
  then show ?case by simp
next
  case (Cons opt opts)
  then show ?case
    by (cases opt)
       (auto simp: Start_def advance_def Let_def split: if_splits outcome.splits)
qed

lemma registry_wf_NewMockClock:
  "NewMockClock rt rt' opts = Returns u m \<Longrightarrow> registry_wf m"
  using applyOptions_lists [of rt' opts "initial_clock rt" u m]
  by (simp add: NewMockClock_def registry_wf_def initial_clock_def)

lemma registry_wf_sort:
  assumes "sort_contract srt" "registry_wf m"
  shows "registry_wf (m\<lparr>active := srt key (active m)\<rparr>)"
  using assms(2)
  by (auto simp: registry_wf_def sort_contract_set [OF assms(1)]
      sort_contract_distinct [OF assms(1)])

lemma registry_wf_deactivate:
  assumes wf: "registry_wf m" and s: "s \<noteq> tsActive"
  shows "registry_wf (disableTicker i (set_state i s m))"
proof (cases "i \<in> set (active m)")
  case True
  then have t: "tickables_take i (active m) = (tickables_remove i (active m), Some i)"
    by (rule tickables_take_found)
  have d: "distinct (active m)" "i \<notin> set (inactive m)"
    using wf True by (auto simp: registry_wf_def)
  show ?thesis
    using wf s True d
    by (auto simp: disableTicker_def set_state_def t registry_wf_def tickables_remove_set
        tickables_remove_distinct)
next
  case False
  then have t: "tickables_take i (active m) = (active m, None)"
    by (rule tickables_take_missing)
  show ?thesis
    using wf s False
    by (auto simp: disableTicker_def set_state_def t registry_wf_def)
qed

lemma registry_wf_activate:
  assumes sc: "sort_contract srt" and wf: "registry_wf m"
    and na: "state (objs m i) \<noteq> tsActive"
    and pos: "isTicker (objs m i) \<longrightarrow> 0 < dur (objs m i)"
  shows "registry_wf (enableTicker srt i (set_state i tsActive m))"
proof -
  have ia: "i \<notin> set (active m)" using wf na by (auto simp: registry_wf_def)
  show ?thesis
  proof (cases "i \<in> set (inactive m)")
    case True
    then have t: "tickables_take i (inactive m) = (tickables_remove i (inactive m), Some i)"
      by (rule tickables_take_found)
    have d: "distinct (inactive m)" using wf by (simp add: registry_wf_def)
    show ?thesis
      using wf ia True d pos
      by (auto simp: enableTicker_def activateTicker_def set_state_def t registry_wf_def
          tickables_remove_set tickables_remove_distinct sort_contract_set [OF sc]
          sort_contract_distinct [OF sc])
  next
    case False
    then have t: "tickables_take i (inactive m) = (inactive m, None)"
      by (rule tickables_take_missing)
    show ?thesis
      using wf ia False
      by (auto simp: enableTicker_def set_state_def t registry_wf_def)
  qed
qed

lemma registry_wf_frame:
  "registry_wf (m\<lparr>now := a\<rparr>) = registry_wf m"
  "registry_wf (m\<lparr>sent := b\<rparr>) = registry_wf m"
  "registry_wf (m\<lparr>updated := c\<rparr>) = registry_wf m"
  "registry_wf (set_nxt i t m) = registry_wf m"
  "registry_wf (go_deliver i t m) = registry_wf m"
  by (auto simp: registry_wf_def set_nxt_def)

lemma registry_wf_timer_tick:
  assumes "registry_wf m"
  shows "registry_wf (snd (timer_tick srt r tnow m))"
  using assms
  by (auto simp: timer_tick_def timer_enterState_def Let_def registry_wf_frame
      registry_wf_deactivate split: option.splits)

lemma registry_wf_ticker_tick:
  assumes "registry_wf m" "ticker_tick r tnow m = Some (b, m')"
  shows "registry_wf m'"
  using assms
  by (auto simp: ticker_tick_def Let_def registry_wf_frame Option.bind_eq_Some_conv
      split: option.splits if_splits)

lemma registry_wf_mockClock_tick:
  assumes sc: "sort_contract srt" and wf: "registry_wf m"
    and res: "mockClock_tick srt t m = Some (b, m')"
  shows "registry_wf m'"
proof (cases "active m")
  case Nil
  with res wf show ?thesis by (simp add: mockClock_tick_def)
next
  case (Cons h rest)
  show ?thesis
  proof (cases "t < nextTick m h")
    case True
    with res wf Cons show ?thesis by (simp add: mockClock_tick_def)
  next
    case False
    from res Cons False obtain b1 m1 where tt: "tickable_tick srt h t m = Some (b1, m1)"
      and m': "m' = m1\<lparr>active := srt (nextTick m1) (active m1)\<rparr>"
      by (auto simp: mockClock_tick_def Option.bind_eq_Some_conv)
    have "registry_wf m1"
    proof (cases "isTicker (objs m h)")
      case True
      with tt have "ticker_tick (Some h) t m = Some (b1, m1)" by (simp add: tickable_tick_def)
      from registry_wf_ticker_tick [OF wf this] show ?thesis .
    next
      case False
      with tt have "m1 = snd (timer_tick srt (Some h) t m)" by (auto simp: tickable_tick_def)
      with registry_wf_timer_tick [OF wf] show ?thesis by simp
    qed
    then show ?thesis unfolding m' by (rule registry_wf_sort [OF sc])
  qed
qed

lemma registry_wf_tick_loop:
  assumes sc: "sort_contract srt" and wf: "registry_wf m"
  shows "\<exists>m'. tick_loop srt t m = Some m' \<and> registry_wf m'"
proof -
  have "\<exists>m'. tick_loop srt t m = Some m' \<and> registry_ok m' \<and> registry_wf m' \<and>
      mockClock_tick srt t m' = Some (False, m')"
  proof (rule tick_loop_rule [where P = registry_wf, OF sc _ registry_wf_ok [OF wf] wf])
    fix y y'
    assume "registry_wf y" "mockClock_tick srt t y = Some (True, y')"
    then show "registry_wf y'" by (rule registry_wf_mockClock_tick [OF sc])
  qed
  then show ?thesis by blast
qed

lemma registry_wf_AdvanceTo:
  assumes sc: "sort_contract srt" and wf: "registry_wf m"
    and res: "AdvanceTo srt rt t m = Some (Returns u m')"
  shows "registry_wf m'"
proof -
  from registry_wf_tick_loop [OF sc wf, of t]
  obtain m1 where m1: "tick_loop srt t m = Some m1" "registry_wf m1" by blast
  with res have "m' = m1\<lparr>now := t, updated := rt\<rparr>"
    by (auto simp: AdvanceTo_def split: if_splits)
  with m1(2) show ?thesis by (simp add: registry_wf_def)
qed

lemma registry_wf_alloc:
  assumes sc: "sort_contract srt" and wf: "registry_wf m"
    and t: "state t = tsActive" "isTicker t \<longrightarrow> 0 < dur t"
  shows "registry_wf
    ((activateTicker srt (nextTickerId m) (m\<lparr>objs := (objs m)(nextTickerId m := t)\<rparr>))
       \<lparr>nextTickerId :=
          nextTickerId (activateTicker srt (nextTickerId m)
            (m\<lparr>objs := (objs m)(nextTickerId m := t)\<rparr>)) + 1\<rparr>)"
proof -
  have fresh: "nextTickerId m \<notin> set (active m)" "nextTickerId m \<notin> set (inactive m)"
    using wf by (auto simp: registry_wf_def)
  show ?thesis
    using wf fresh t
    by (auto simp: registry_wf_def activateTicker_def sort_contract_set [OF sc]
        sort_contract_distinct [OF sc] less_Suc_eq)
qed

lemma registry_wf_newTimer:
  assumes sc: "sort_contract srt" and wf: "registry_wf m"
  shows "registry_wf (snd (newTimer srt d f m))"
proof -
  let ?t = "\<lparr>isTicker = False, fn = f, chan = \<not> f, dur = 0, nxt = now m + max d 0,
               state = tsActive\<rparr>"
  have a: "registry_wf
    ((activateTicker srt (nextTickerId m) (m\<lparr>objs := (objs m)(nextTickerId m := ?t)\<rparr>))
       \<lparr>nextTickerId :=
          nextTickerId (activateTicker srt (nextTickerId m)
            (m\<lparr>objs := (objs m)(nextTickerId m := ?t)\<rparr>)) + 1\<rparr>)"
    by (rule registry_wf_alloc [OF sc wf]) simp_all
  show ?thesis
    unfolding newTimer_def Let_def snd_conv
    by (cases "d \<le> 0") (simp_all only: if_True if_False a registry_wf_timer_tick [OF a])
qed

lemma registry_wf_newTicker:
  assumes sc: "sort_contract srt" and wf: "registry_wf m" and d: "0 < d"
    and res: "newTicker srt d m = Some (tk, m')"
  shows "registry_wf m'"
proof -
  let ?t = "\<lparr>isTicker = True, fn = False, chan = True, dur = d, nxt = now m + max d 0,
               state = tsActive\<rparr>"
  have a: "registry_wf
    ((activateTicker srt (nextTickerId m) (m\<lparr>objs := (objs m)(nextTickerId m := ?t)\<rparr>))
       \<lparr>nextTickerId :=
          nextTickerId (activateTicker srt (nextTickerId m)
            (m\<lparr>objs := (objs m)(nextTickerId m := ?t)\<rparr>)) + 1\<rparr>)"
    by (rule registry_wf_alloc [OF sc wf]) (simp_all add: d)
  have "\<not> d \<le> 0" using d by simp
  with res have "m' =
    (activateTicker srt (nextTickerId m) (m\<lparr>objs := (objs m)(nextTickerId m := ?t)\<rparr>))
       \<lparr>nextTickerId :=
          nextTickerId (activateTicker srt (nextTickerId m)
            (m\<lparr>objs := (objs m)(nextTickerId m := ?t)\<rparr>)) + 1\<rparr>"
    unfolding newTicker_def Let_def by (simp only: if_False option.inject prod.inject)
  with a show ?thesis by simp
qed

lemma registry_wf_timer_stop:
  assumes "registry_wf m"
  shows "registry_wf (snd (timer_stop srt i m))"
  using assms
  by (simp add: timer_stop_def timer_enterState_def Let_def registry_wf_deactivate)

lemma registry_wf_ticker_stop:
  assumes "registry_wf m" "ticker_stop srt i m = Returns u m'"
  shows "registry_wf m'"
  using assms
  by (auto simp: ticker_stop_def ticker_enterState_def Let_def registry_wf_deactivate
      split: if_splits)

lemma timer_tick_isTicker:
  "isTicker (objs (snd (timer_tick srt r tnow x)) i) = isTicker (objs x i)"
  by (auto simp: timer_tick_def timer_enterState_def Let_def set_state_def split: option.splits)

lemma registry_wf_reactivate:
  assumes sc: "sort_contract srt" and wf: "registry_wf x" and tm: "\<not> isTicker (objs x i)"
  shows "registry_wf (if state (objs x i) \<noteq> tsActive then timer_enterState srt i tsActive x else x)"
proof (cases "state (objs x i) = tsActive")
  case True
  with wf show ?thesis by simp
next
  case False
  with registry_wf_activate [OF sc wf False] tm show ?thesis
    by (simp add: timer_enterState_def Let_def)
qed

lemma registry_wf_timer_reset:
  assumes sc: "sort_contract srt" and wf: "registry_wf m" and tm: "\<not> isTicker (objs m i)"
  shows "registry_wf (snd (timer_reset srt i d m))"
proof -
  let ?m1 = "set_nxt i (now m + d) m"
  let ?m2 = "if d = 0 then snd (timer_tick srt (Some i) (now ?m1) ?m1) else ?m1"
  have wf1: "registry_wf ?m1" using wf by (simp add: registry_wf_frame)
  have t1: "\<not> isTicker (objs ?m1 i)" using tm by (simp add: set_nxt_def)
  have "registry_wf ?m2 \<and> \<not> isTicker (objs ?m2 i)"
  proof (cases "d = 0")
    case True
    then have "?m2 = snd (timer_tick srt (Some i) (now ?m1) ?m1)" by (rule if_P)
    moreover have "registry_wf (snd (timer_tick srt (Some i) (now ?m1) ?m1))"
      by (rule registry_wf_timer_tick [OF wf1])
    moreover have "\<not> isTicker (objs (snd (timer_tick srt (Some i) (now ?m1) ?m1)) i)"
      using t1 by (simp add: timer_tick_isTicker)
    ultimately show ?thesis by (simp only: simp_thms)
  next
    case False
    then have "?m2 = ?m1" by (rule if_not_P)
    with wf1 t1 show ?thesis by (simp only: simp_thms)
  qed
  then have "registry_wf (if state (objs ?m2 i) \<noteq> tsActive
      then timer_enterState srt i tsActive ?m2 else ?m2)"
    using registry_wf_reactivate [OF sc, of ?m2 i] by blast
  then show ?thesis
    unfolding timer_reset_def resetTimer_def Let_def snd_conv .
qed

lemma registry_wf_ticker_reset:
  assumes sc: "sort_contract srt" and wf: "registry_wf m"
    and res: "ticker_reset srt i d m = Returns u m'"
  shows "registry_wf m'"
proof -
  from res have d: "0 < d" by (auto simp: ticker_reset_def split: if_splits)
  let ?m1 = "set_nxt i (now m + max d 0) (set_dur i d m)"
  have wf1: "registry_wf ?m1"
    using wf d by (auto simp: registry_wf_def set_nxt_def set_dur_def)
  have p1: "isTicker (objs ?m1 i) \<longrightarrow> 0 < dur (objs ?m1 i)"
    using d by (simp add: set_nxt_def set_dur_def)
  show ?thesis
  proof (cases "state (objs ?m1 i) = tsActive")
    case True
    with res d wf1 show ?thesis
      by (simp add: ticker_reset_def resetTicker_def ticker_enterState_def)
  next
    case False
    with res d registry_wf_activate [OF sc wf1 False p1] show ?thesis
      by (simp add: ticker_reset_def resetTicker_def ticker_enterState_def Let_def)
  qed
qed

subsection \<open>Goroutines that wait\<close>

text \<open>
  A new clock has no goroutine waiting, and while the yield is positive the operations
  leave none: each has run at its tick.
\<close>

lemma applyOptions_waiting:
  "applyOptions rt opts m = Returns u m' \<Longrightarrow> waiting m' = waiting m"
proof (induction opts arbitrary: m)
  case Nil
  then show ?case by simp
next
  case (Cons opt opts)
  then show ?case
    by (cases opt)
       (auto simp: Start_def advance_def Let_def split: if_splits outcome.splits)
qed

lemma NewMockClock_waiting:
  "NewMockClock rt rt' opts = Returns u m \<Longrightarrow> waiting m = []"
  using applyOptions_waiting [of rt' opts "initial_clock rt" u m]
  by (simp add: NewMockClock_def initial_clock_def)

lemma newTimer_waiting:
  "0 < yield m \<Longrightarrow> waiting (snd (newTimer srt d f m)) = waiting m"
  by (auto simp: newTimer_def Let_def activateTicker_def timer_tick_def timer_enterState_def
      disableTicker_def tickables_take_def set_state_def go_deliver_waiting
      split: option.splits prod.splits)

lemma newTicker_waiting:
  "0 < yield m \<Longrightarrow> newTicker srt d m = Some (tk, m') \<Longrightarrow> waiting m' = waiting m"
  by (auto simp: newTicker_def Let_def activateTicker_def ticker_tick_def set_nxt_def
      go_deliver_waiting Option.bind_eq_Some_conv split: if_splits)

lemma timer_reset_waiting:
  "0 < yield m \<Longrightarrow> waiting (snd (timer_reset srt i d m)) = waiting m"
  by (auto simp: timer_reset_def resetTimer_def Let_def set_nxt_def timer_tick_def
      timer_enterState_def disableTicker_def enableTicker_def activateTicker_def
      tickables_take_def set_state_def go_deliver_waiting split: option.splits prod.splits)

lemma AdvanceTo_waiting:
  "0 < yield m \<Longrightarrow> AdvanceTo srt rt t m = Some (Returns u m') \<Longrightarrow> waiting m' = waiting m"
  using tick_loop_yield
  by (auto simp: AdvanceTo_def Option.bind_eq_Some_conv split: if_splits)

subsection \<open>The concrete clocks\<close>

lemma demo_clock_eval:
  "demo_clock = (initial_clock 0)\<lparr>active := [0, 1], nextTickerId := 2,
     objs := (\<lambda>_. zero_tickable)
       (0 := \<lparr>isTicker = False, fn = False, chan = True, dur = 0, nxt = 2, state = tsActive\<rparr>,
        1 := \<lparr>isTicker = False, fn = False, chan = True, dur = 0, nxt = 5, state = tsActive\<rparr>)\<rparr>"
  by (simp add: demo_clock_def NewTimer_def newTimer_def Let_def activateTicker_def nextTick_fun
      initial_clock_def)

lemma registry_ok_demo: "registry_ok demo_clock"
  by (simp add: demo_clock_eval registry_ok_def initial_clock_def)

lemma not_running_demo: "\<not> IsRunning demo_clock"
  by (simp add: demo_clock_eval IsRunning_def initial_clock_def)

lemma demo_ticker_clock_eval:
  "demo_ticker_clock = (initial_clock 0)\<lparr>active := [0, 2, 1], nextTickerId := 3,
     objs := (\<lambda>_. zero_tickable)
       (0 := \<lparr>isTicker = False, fn = False, chan = True, dur = 0, nxt = 2, state = tsActive\<rparr>,
        1 := \<lparr>isTicker = False, fn = False, chan = True, dur = 0, nxt = 5, state = tsActive\<rparr>,
        2 := \<lparr>isTicker = True, fn = False, chan = True, dur = 3, nxt = 3, state = tsActive\<rparr>)\<rparr>"
  by (simp add: demo_ticker_clock_def NewTicker_def newTicker_def Let_def activateTicker_def
      nextTick_fun demo_clock_eval initial_clock_def)

subsection \<open>The time after a sequence of advances\<close>

lemma advanceBy_cumulative_yielding:
  assumes st: "\<not> IsRunning m" and y: "0 < yield m" and w: "waiting m = []"
    and nn: "\<forall>c\<in>set calls. 0 \<le> fst c" and jk: "j \<le> k" and kl: "k \<le> length calls"
  shows "(sort_contract srt \<and> registry_ok m \<longrightarrow>
            (\<exists>mk. AdvanceBy_all srt (take k calls) m = Some (Returns () mk))) \<and>
         (\<forall>mk. AdvanceBy_all srt (take k calls) m = Some (Returns () mk) \<longrightarrow>
            settled mk = mk \<and>
            fst (Now rt2 mk) = fst (Now rt0 m) + sum_list (map fst (take k calls)) \<and>
            (\<exists>mj. AdvanceBy_all srt (take j calls) m = Some (Returns () mj) \<and> settled mj = mj \<and>
                  fst (Now rt1 mj) \<le> fst (Now rt2 mk)))"
proof (intro conjI impI allI)
  assume "sort_contract srt \<and> registry_ok m"
  moreover have "\<forall>c\<in>set (take k calls). 0 \<le> fst c" using nn by (auto dest: in_set_takeD)
  ultimately show "\<exists>mk. AdvanceBy_all srt (take k calls) m = Some (Returns () mk)"
    using AdvanceBy_all_ok [of srt m "take k calls"] by auto
next
  fix mk
  assume mk: "AdvanceBy_all srt (take k calls) m = Some (Returns () mk)"
  note rk = AdvanceBy_all_returns [OF mk]
  have sk: "\<not> IsRunning mk" using st rk by (simp add: IsRunning_def)
  show "settled mk = mk"
    using AdvanceBy_all_yield [OF mk y] w by (simp add: settled_idle)
  show "fst (Now rt2 mk) = fst (Now rt0 m) + sum_list (map fst (take k calls))"
    using rk st sk by (simp add: Now_stopped)
  have "take k calls = take j calls @ drop j (take k calls)"
    using jk by (metis append_take_drop_id min.absorb1 take_take)
  with mk have "AdvanceBy_all srt (take j calls @ drop j (take k calls)) m = Some (Returns () mk)"
    by simp
  from AdvanceBy_all_append [OF this]
  obtain mj where mj: "AdvanceBy_all srt (take j calls) m = Some (Returns () mj)" by auto
  note rj = AdvanceBy_all_returns [OF mj]
  have sj: "\<not> IsRunning mj" using st rj by (simp add: IsRunning_def)
  have wj: "settled mj = mj"
    using AdvanceBy_all_yield [OF mj y] w by (simp add: settled_idle)
  have "sum_list (take j (map fst calls)) \<le> sum_list (take k (map fst calls))"
    using nn jk by (intro sum_take_mono) auto
  then have "now mj \<le> now mk" using rj rk by (simp add: take_map)
  then show "\<exists>mj. AdvanceBy_all srt (take j calls) m = Some (Returns () mj) \<and> settled mj = mj \<and>
                  fst (Now rt1 mj) \<le> fst (Now rt2 mk)"
    using mj sj sk wj by (auto simp: Now_stopped)
qed

lemma unyielding_timer_clock_eval:
  "unyielding_timer_clock = (initial_clock 0)\<lparr>yield := 0, active := [0], nextTickerId := 1,
     objs := (\<lambda>_. zero_tickable)
       (0 := \<lparr>isTicker = False, fn = True, chan = False, dur = 0, nxt = 2, state = tsActive\<rparr>)\<rparr>"
  by (simp add: unyielding_timer_clock_def unyielding_clock_def NewMockClock_def AfterFunc_def
      newTimer_def Let_def activateTicker_def nextTick_fun initial_clock_def)

lemma unyielding_advance:
  "AdvanceBy sort_key 7 5 unyielding_timer_clock =
     Some (Returns () ((initial_clock 0)\<lparr>yield := 0, now := 5, updated := 7, active := [],
       inactive := [0], nextTickerId := 1, sent := [(0, 2)], waiting := [2],
       objs := (\<lambda>_. zero_tickable)
         (0 := \<lparr>isTicker = False, fn = True, chan = False, dur = 0, nxt = 2, state = tsExpired\<rparr>)\<rparr>))"
  by (simp add: unyielding_timer_clock_eval AdvanceBy_def AdvanceTo_def tick_loop.simps
      mockClock_tick_def tickable_tick_def timer_tick_def timer_enterState_def disableTicker_def
      tickables_take_def set_state_def nextTick_fun Let_def go_deliver_def initial_clock_def
      zero_tickable_def)

text \<open>
  C1. \<^verbatim>\<open>AdvanceBy(d)\<close> is to leave the clock at the time it had plus \<open>d\<close>, and
  \<^verbatim>\<open>AdvanceTo\<close> ends by writing the new time (its comment: ``Ensure that we end with
  the new time''). On a stopped clock with a positive yield the time after successive
  calls is the initial time plus the sum of the durations
  (\<open>advanceBy_cumulative_yielding\<close>). With a yield of 0, which \<^verbatim>\<open>Yielding(0)\<close> sets, it
  is not: the goroutine of a timer that fires during the advance writes
  \<^verbatim>\<open>clock.now = t.next\<close> after \<^verbatim>\<open>AdvanceTo\<close> has written the new time. On the clock
  of \<^verbatim>\<open>NewMockClock(Yielding(0))\<close>, stopped and at the time 0, after \<^verbatim>\<open>AfterFunc(2, f)\<close>
  the call \<^verbatim>\<open>AdvanceBy(5)\<close> returns with the time 5 and the goroutine of the timer
  waiting, and once that has run the clock reads 2.
\<close>

theorem advanceBy_without_yield_goes_back:
  "NewMockClock 0 0 [Yielding 0] = Returns () unyielding_clock \<and>
   \<not> IsRunning unyielding_timer_clock \<and>
   fst (Now 1 unyielding_timer_clock) = 0 \<and>
   AdvanceBy sort_key 7 5 unyielding_timer_clock = Some (Returns () unyielding_advanced) \<and>
   now unyielding_advanced = 5 \<and>
   sent unyielding_advanced = [(0, 2)] \<and>
   waiting unyielding_advanced = [2] \<and>
   fst (Now 9 (settled unyielding_advanced)) = 2"
proof -
  have a: "NewMockClock 0 0 [Yielding 0] = Returns () unyielding_clock"
    by (simp add: unyielding_clock_def NewMockClock_def)
  have b: "\<not> IsRunning unyielding_timer_clock" "fst (Now 1 unyielding_timer_clock) = 0"
    by (simp_all add: unyielding_timer_clock_eval Now_def advance_def IsRunning_def
        initial_clock_def)
  have c: "unyielding_advanced = (initial_clock 0)\<lparr>yield := 0, now := 5, updated := 7, active := [],
       inactive := [0], nextTickerId := 1, sent := [(0, 2)], waiting := [2],
       objs := (\<lambda>_. zero_tickable)
         (0 := \<lparr>isTicker = False, fn = True, chan = False, dur = 0, nxt = 2, state = tsExpired\<rparr>)\<rparr>"
    by (simp add: unyielding_advanced_def unyielding_advance)
  have d: "fst (Now 9 (settled unyielding_advanced)) = 2"
    by (simp add: c settled_def Now_def advance_def IsRunning_def initial_clock_def)
  from a b d show ?thesis
    by (simp add: unyielding_advance) (simp add: c)
qed

subsection \<open>Going back in time\<close>

text \<open>
  C2. \<^verbatim>\<open>AdvanceTo(t)\<close> with \<open>t\<close> before the current time, and \<^verbatim>\<open>AdvanceBy(d)\<close> with a
  negative \<open>d\<close>, panic with \<^verbatim>\<open>ErrNotADelorean\<close> and leave the clock, the current time
  and the registry with it, as it was.
\<close>

theorem advance_backwards_panics:
  "(t < now m \<longrightarrow> AdvanceTo srt rt t m = Some (Panics ErrNotADelorean m)) \<and>
   (d < 0 \<longrightarrow> AdvanceBy srt rt d m = Some (Panics ErrNotADelorean m))"
  by (simp add: AdvanceBy_def AdvanceTo_def)

theorem advance_backwards_panics_witness:
  "AdvanceTo sort_key 100 (-1) demo_clock = Some (Panics ErrNotADelorean demo_clock) \<and>
   AdvanceBy sort_key 100 (-1) demo_clock = Some (Panics ErrNotADelorean demo_clock)"
proof -
  have "(-1::int) < now demo_clock" "(-1::int) < 0"
    by (simp_all add: demo_clock_eval initial_clock_def)
  with advance_backwards_panics [of "-1" demo_clock sort_key 100 "-1"] show ?thesis by simp
qed

subsection \<open>A ticker advanced by a multiple of its period\<close>

lemma deliveries_append [simp]: "deliveries i (xs @ ys) = deliveries i xs @ deliveries i ys"
  by (simp add: deliveries_def)

lemma deliveries_simps [simp]:
  "deliveries i [] = []"
  "deliveries i ((j, v) # xs) = (if j = i then v # deliveries i xs else deliveries i xs)"
  by (simp_all add: deliveries_def)

lemma sorted_head_bound:
  assumes "sorted (map f xs)" "xs \<noteq> []" "t < f (hd xs)" "i \<in> set xs"
  shows "t < f i"
  using assms by (cases xs) (auto simp: less_le_trans)

lemma mockClock_tick_other:
  assumes sc: "sort_contract srt" and ok: "registry_ok m" and a: "active m = h # rest"
    and res: "mockClock_tick srt t m = Some (True, m')" and i: "i \<in> set rest"
  shows "objs m' i = objs m i" "i \<in> set (active m')"
    "\<exists>new. sent m' = sent m @ new \<and> deliveries i new = []"
    "sorted (map (nextTick m') (active m'))"
proof -
  have ne: "i \<noteq> h" using registry_okD(2) [OF ok a] i by auto
  have due: "\<not> t < nextTick m h"
    using res a by (auto simp: mockClock_tick_def split: if_splits)
  have "objs m' i = objs m i \<and> i \<in> set (active m') \<and>
    (\<exists>new. sent m' = sent m @ new \<and> deliveries i new = []) \<and>
    sorted (map (nextTick m') (active m'))"
  proof (cases "isTicker (objs m h)")
    case True
    obtain at nx where f: "ticker_fire (dropsTicks m) (dur (objs m h)) t (nxt (objs m h)) = (at, nx)"
      by (cases "ticker_fire (dropsTicks m) (dur (objs m h)) t (nxt (objs m h))")
    have m': "m' = (go_deliver h at (set_nxt h nx m))
                 \<lparr>active := srt (nextTick (set_nxt h nx m)) (active m)\<rparr>"
      using mockClock_tick_ticker [OF ok a due True, of srt] res f by simp
    have "objs m' i = objs m i" using ne by (simp add: m' set_nxt_def)
    moreover have "i \<in> set (active m')" using i a by (simp add: m' sort_contract_set [OF sc])
    moreover have "\<exists>new. sent m' = sent m @ new \<and> deliveries i new = []"
      using ne by (simp add: m' set_nxt_def)
    moreover have "sorted (map (nextTick m') (active m'))"
      using sort_contract_sorted [OF sc] by (simp add: m' nextTick_fun set_nxt_def)
    ultimately show ?thesis by simp
  next
    case False
    from mockClock_tick_timer [OF ok a due False, of srt] res
    have ob: "objs m' = (objs m)(h := (objs m h)\<lparr>state := tsExpired\<rparr>)"
      and ac: "active m' = srt (nextTick (set_state h tsExpired m)) rest"
      and se: "sent m' = sent m @ [(h, nxt (objs m h))] \<or> sent m' = sent m"
      by (auto simp: Let_def set_state_def nextTick_fun split: if_splits)
    have "objs m' i = objs m i" using ne by (simp add: ob)
    moreover have "i \<in> set (active m')" using i by (simp add: ac sort_contract_set [OF sc])
    moreover have "\<exists>new. sent m' = sent m @ new \<and> deliveries i new = []"
      using se ne by auto
    moreover have "sorted (map (nextTick m') (active m'))"
      using sort_contract_sorted [OF sc, of "nextTick (set_state h tsExpired m)" rest]
      by (simp add: ac nextTick_fun ob set_state_def)
    ultimately show ?thesis by simp
  qed
  then show "objs m' i = objs m i" "i \<in> set (active m')"
    "\<exists>new. sent m' = sent m @ new \<and> deliveries i new = []"
    "sorted (map (nextTick m') (active m'))" by simp_all
qed

lemma mockClock_tick_head_ticker:
  assumes sc: "sort_contract srt" and ok: "registry_ok m" and a: "active m = h # rest"
    and res: "mockClock_tick srt t m = Some (True, m')" and tk: "isTicker (objs m h)"
  shows "\<not> t < nxt (objs m h)"
    "objs m' h = (objs m h)\<lparr>nxt := snd (ticker_fire (dropsTicks m) (dur (objs m h)) t (nxt (objs m h)))\<rparr>"
    "sent m' = sent m @ [(h, fst (ticker_fire (dropsTicks m) (dur (objs m h)) t (nxt (objs m h))))]"
    "h \<in> set (active m')"
    "sorted (map (nextTick m') (active m'))"
proof -
  have due: "\<not> t < nextTick m h"
    using res a by (auto simp: mockClock_tick_def split: if_splits)
  then show "\<not> t < nxt (objs m h)" by (simp add: nextTick_def)
  obtain at nx where f: "ticker_fire (dropsTicks m) (dur (objs m h)) t (nxt (objs m h)) = (at, nx)"
    by (cases "ticker_fire (dropsTicks m) (dur (objs m h)) t (nxt (objs m h))")
  have m': "m' = (go_deliver h at (set_nxt h nx m))
               \<lparr>active := srt (nextTick (set_nxt h nx m)) (active m)\<rparr>"
    using mockClock_tick_ticker [OF ok a due tk, of srt] res f by simp
  show "objs m' h = (objs m h)\<lparr>nxt := snd (ticker_fire (dropsTicks m) (dur (objs m h)) t (nxt (objs m h)))\<rparr>"
    by (simp add: m' f set_nxt_def)
  show "sent m' = sent m @ [(h, fst (ticker_fire (dropsTicks m) (dur (objs m h)) t (nxt (objs m h))))]"
    by (simp add: m' f set_nxt_def)
  show "h \<in> set (active m')" using a by (simp add: m' sort_contract_set [OF sc])
  show "sorted (map (nextTick m') (active m'))"
    using sort_contract_sorted [OF sc] by (simp add: m' nextTick_fun set_nxt_def)
qed

lemma ticker_inv_step:
  assumes sc: "sort_contract srt" and p: "0 < p" and n: "1 \<le> n"
    and ok: "registry_ok x" and inv: "ticker_inv i T p n dr base x"
    and res: "mockClock_tick srt (T + int n * p) x = Some (True, x')"
  shows "ticker_inv i T p n dr base x'"
proof -
  let ?t = "T + int n * p"
  obtain h rest where a: "active x = h # rest"
    using res by (cases "active x") (auto simp: mockClock_tick_def)
  have dr: "dropsTicks x' = dr"
    using mockClock_tick_frame(2) [OF res] inv by (simp add: ticker_inv_def)
  from inv obtain new where new: "sent x = base @ new"
    and q: "ticker_progress dr T p n (nxt (objs x i)) (deliveries i new)"
    and tk: "isTicker (objs x i)" and du: "dur (objs x i) = p" and dx: "dropsTicks x = dr"
    and ia: "i \<in> set (active x)"
    by (auto simp: ticker_inv_def)
  show ?thesis
  proof (cases "h = i")
    case True
    note hd = mockClock_tick_head_ticker [OF sc ok a res, unfolded True, OF tk]
    show ?thesis
    proof (cases dr)
      case True
      with q hd(1) have start: "nxt (objs x i) = T + p" "deliveries i new = []"
        by (auto simp: ticker_progress_def)
      have f: "ticker_fire (dropsTicks x) (dur (objs x i)) ?t (nxt (objs x i)) = (?t, ?t + p)"
        using ticker_fire_drop_all [OF p n, of T] by (simp add: dx True du start)
      have "sent x' = base @ (new @ [(i, ?t)])" using hd(3) by (simp add: f new)
      moreover have "deliveries i (new @ [(i, ?t)]) = [?t]" using start by simp
      moreover have "?t < nxt (objs x' i)" using hd(2) p by (simp add: f)
      ultimately have "\<exists>new'. sent x' = base @ new' \<and>
          ticker_progress dr T p n (nxt (objs x' i)) (deliveries i new')"
        using True unfolding ticker_progress_def by (intro exI [of _ "new @ [(i, ?t)]"]) simp
      then show ?thesis
        using hd(2,4,5) tk du dr unfolding ticker_inv_def by simp
    next
      case False
      with q obtain k where k: "k \<le> n" "nxt (objs x i) = T + (int k + 1) * p"
        "deliveries i new = map (\<lambda>j. T + int j * p) [1..<Suc k]"
        by (auto simp: ticker_progress_def)
      have f: "ticker_fire (dropsTicks x) (dur (objs x i)) ?t (nxt (objs x i)) =
          (T + (int k + 1) * p, T + (int k + 1) * p + p)"
        by (simp add: dx False du k ticker_fire_no_drop)
      have "(int k + 1) * p \<le> int n * p" using hd(1) k(2) by simp
      then have "int k + 1 \<le> int n" using p by (simp add: mult_le_cancel_right)
      then have k': "Suc k \<le> n" by simp
      have "sent x' = base @ (new @ [(i, T + (int k + 1) * p)])" using hd(3) by (simp add: f new)
      moreover have "deliveries i (new @ [(i, T + (int k + 1) * p)]) =
          map (\<lambda>j. T + int j * p) [1..<Suc (Suc k)]"
        using k(3) by simp
      moreover have "nxt (objs x' i) = T + (int (Suc k) + 1) * p"
      proof -
        have "nxt (objs x' i) = T + (int k + 1) * p + p" using hd(2) by (simp add: f)
        then show ?thesis by (simp add: algebra_simps)
      qed
      ultimately have "\<exists>new'. sent x' = base @ new' \<and> (\<exists>k'\<le>n. nxt (objs x' i) = T + (int k' + 1) * p \<and>
                 deliveries i new' = map (\<lambda>j. T + int j * p) [1..<Suc k'])"
        using k' by blast
      then have "\<exists>new'. sent x' = base @ new' \<and>
          ticker_progress dr T p n (nxt (objs x' i)) (deliveries i new')"
        using False unfolding ticker_progress_def by simp
      then show ?thesis
        using hd(2,4,5) tk du dr unfolding ticker_inv_def by simp
    qed
  next
    case False
    then have ir: "i \<in> set rest" using ia a by simp
    note ot = mockClock_tick_other [OF sc ok a res ir]
    from ot(3) obtain new2 where new2: "sent x' = sent x @ new2" "deliveries i new2 = []" by auto
    have "sent x' = base @ (new @ new2)" using new new2 by simp
    moreover have "deliveries i (new @ new2) = deliveries i new" using new2 by simp
    ultimately have "\<exists>new'. sent x' = base @ new' \<and>
        ticker_progress dr T p n (nxt (objs x' i)) (deliveries i new')"
      using q ot(1) by (intro exI [of _ "new @ new2"]) simp
    then show ?thesis
      using ot(1,2,4) tk du dr unfolding ticker_inv_def by simp
  qed
qed

lemma ticker_inv_final:
  assumes p: "0 < p" and n: "1 \<le> n"
    and ok: "registry_ok x" and inv: "ticker_inv i T p n dr base x"
    and res: "mockClock_tick srt (T + int n * p) x = Some (False, x)"
  shows "\<exists>new. sent x = base @ new \<and>
    deliveries i new = (if dr then [T + int n * p] else map (\<lambda>j. T + int j * p) [1..<Suc n])"
proof -
  let ?t = "T + int n * p"
  from inv have ia: "i \<in> set (active x)" and so: "sorted (map (nextTick x) (active x))"
    by (simp_all add: ticker_inv_def)
  then have "active x \<noteq> []" by auto
  with mockClock_tick_idleD [OF ok res] have "?t < nextTick x (hd (active x))" by simp
  from sorted_head_bound [OF so \<open>active x \<noteq> []\<close> this ia]
  have late: "?t < nxt (objs x i)" by (simp add: nextTick_def)
  from inv obtain new where new: "sent x = base @ new"
    and q: "ticker_progress dr T p n (nxt (objs x i)) (deliveries i new)"
    by (auto simp: ticker_inv_def)
  have pn: "p \<le> int n * p" using p n by (simp add: mult_le_cancel_right1)
  show ?thesis
  proof (cases dr)
    case True
    with q late pn have "deliveries i new = [?t]" by (auto simp: ticker_progress_def)
    with new True show ?thesis by auto
  next
    case False
    with q obtain k where k: "k \<le> n" "nxt (objs x i) = T + (int k + 1) * p"
        "deliveries i new = map (\<lambda>j. T + int j * p) [1..<Suc k]"
      by (auto simp: ticker_progress_def)
    have "int n * p < (int k + 1) * p" using late k(2) by simp
    then have "int n < int k + 1" using p by (simp add: mult_less_cancel_right)
    with k(1) have "k = n" by simp
    with k(3) new False show ?thesis by auto
  qed
qed

lemma newTicker_positive:
  assumes "0 < p"
  shows "newTicker srt p m =
    Some (\<lparr>stdTicker = True, ticker = Some (nextTickerId m), initialisedT = True\<rparr>,
          m\<lparr>objs := (objs m)(nextTickerId m :=
                 \<lparr>isTicker = True, fn = False, chan = True, dur = p, nxt = now m + p,
                  state = tsActive\<rparr>),
            active := srt (\<lambda>j. nxt (((objs m)(nextTickerId m :=
                 \<lparr>isTicker = True, fn = False, chan = True, dur = p, nxt = now m + p,
                  state = tsActive\<rparr>)) j)) (active m @ [nextTickerId m]),
            nextTickerId := nextTickerId m + 1\<rparr>)"
  using assms by (simp add: newTicker_def Let_def activateTicker_def nextTick_fun)

text \<open>
  C3. A ticker of period \<open>p > 0\<close> is created at the time \<open>T\<close> and the clock is advanced by
  \<open>n * p\<close> with \<open>n \<ge> 1\<close>. When the clock does not drop ticks the ticker delivers \<open>n\<close>
  times, the values \<open>T + p, \<dots>, T + n * p\<close>; when it drops ticks the ticker delivers once,
  the value \<open>T + n * p\<close>. The other tickables of the clock may be any that \<open>registry_ok\<close>
  admits.
\<close>

theorem ticker_fires_every_period:
  assumes sc: "sort_contract srt" and ok: "registry_ok m" and p: "0 < p" and n: "1 \<le> n"
  shows "\<exists>tk m1 m2 new.
     newTicker srt p m = Some (tk, m1) \<and> ticker tk = Some (nextTickerId m) \<and>
     AdvanceBy srt rt (int n * p) m1 = Some (Returns () m2) \<and>
     sent m2 = sent m1 @ new \<and>
     deliveries (nextTickerId m) new =
       (if dropsTicks m then [now m + int n * p]
        else map (\<lambda>j. now m + int j * p) [1..<Suc n])"
proof -
  let ?i = "nextTickerId m"
  let ?T = "now m"
  let ?t = "?T + int n * p"
  obtain tk m1 where nt: "newTicker srt p m = Some (tk, m1)"
    and tk: "ticker tk = Some ?i"
    and ob: "objs m1 = (objs m)(?i := \<lparr>isTicker = True, fn = False, chan = True, dur = p,
                 nxt = ?T + p, state = tsActive\<rparr>)"
    and ac: "active m1 = srt (nextTick m1) (active m @ [?i])"
    and rest: "nextTickerId m1 = ?i + 1" "now m1 = ?T" "sent m1 = sent m"
      "dropsTicks m1 = dropsTicks m"
    using newTicker_positive [OF p, of srt m] by (simp add: nextTick_fun)
  have fresh: "?i \<notin> set (active m)" using ok by (auto simp: registry_ok_def)
  have ok1: "registry_ok m1"
    using ok fresh
    by (auto simp: registry_ok_def ac ob rest sort_contract_set [OF sc]
        sort_contract_distinct [OF sc] p)
  have "ticker_progress (dropsTicks m) ?T p n (?T + p) []"
    unfolding ticker_progress_def by (auto intro: exI [of _ 0])
  then have inv1: "ticker_inv ?i ?T p n (dropsTicks m) (sent m) m1"
    unfolding ticker_inv_def
    using sort_contract_sorted [OF sc, of "nextTick m1" "active m @ [?i]"]
    by (simp add: ac ob rest sort_contract_set [OF sc])
  have "\<exists>x. tick_loop srt ?t m1 = Some x \<and> registry_ok x \<and>
      ticker_inv ?i ?T p n (dropsTicks m) (sent m) x \<and> mockClock_tick srt ?t x = Some (False, x)"
  proof (rule tick_loop_rule [where P = "ticker_inv ?i ?T p n (dropsTicks m) (sent m)", OF sc _ ok1 inv1])
    fix y y'
    assume "registry_ok y" "ticker_inv ?i ?T p n (dropsTicks m) (sent m) y"
      "mockClock_tick srt ?t y = Some (True, y')"
    then show "ticker_inv ?i ?T p n (dropsTicks m) (sent m) y'"
      by (rule ticker_inv_step [OF sc p n])
  qed
  then obtain x where x: "tick_loop srt ?t m1 = Some x" "registry_ok x"
    "ticker_inv ?i ?T p n (dropsTicks m) (sent m) x" "mockClock_tick srt ?t x = Some (False, x)"
    by auto
  from ticker_inv_final [OF p n x(2,3,4)]
  obtain new where new: "sent x = sent m @ new"
    "deliveries ?i new = (if dropsTicks m then [?t] else map (\<lambda>j. ?T + int j * p) [1..<Suc n])"
    by auto
  have "0 \<le> int n * p" using p by simp
  then have "AdvanceBy srt rt (int n * p) m1 = Some (Returns () (x\<lparr>now := ?t, updated := rt\<rparr>))"
    using x(1) by (simp add: AdvanceBy_def AdvanceTo_def rest)
  with nt tk new rest show ?thesis by simp
qed

theorem ticker_fires_every_period_witness:
  "(\<exists>tk m1 m2 new.
      newTicker sort_key 3 demo_clock = Some (tk, m1) \<and> ticker tk = Some 2 \<and>
      AdvanceBy sort_key 100 12 m1 = Some (Returns () m2) \<and>
      sent m2 = sent m1 @ new \<and> deliveries 2 new = [3, 6, 9, 12]) \<and>
   (\<exists>tk m1 m2 new.
      newTicker sort_key 3 dropping_clock = Some (tk, m1) \<and> ticker tk = Some 0 \<and>
      AdvanceBy sort_key 100 12 m1 = Some (Returns () m2) \<and>
      sent m2 = sent m1 @ new \<and> deliveries 0 new = [12])"
proof -
  have d: "dropping_clock = (initial_clock 0)\<lparr>dropsTicks := True\<rparr>"
    by (simp add: dropping_clock_def NewMockClock_def)
  have ok: "registry_ok dropping_clock"
    by (simp add: d registry_ok_def initial_clock_def)
  have u: "map (\<lambda>j. int j * 3) [Suc 0..<5] = [3, 6, 9, 12]" by (simp add: upt_rec)
  have a: "now demo_clock = 0" "nextTickerId demo_clock = 2" "\<not> dropsTicks demo_clock"
    by (simp_all add: demo_clock_eval initial_clock_def)
  have b: "now dropping_clock = 0" "nextTickerId dropping_clock = 0" "dropsTicks dropping_clock"
    by (simp_all add: d initial_clock_def)
  have p: "(0::int) < 3" "(1::nat) \<le> 4" by simp_all
  from ticker_fires_every_period [OF sort_contract_sort_key registry_ok_demo p, of 100]
  have "\<exists>tk m1 m2 new.
      newTicker sort_key 3 demo_clock = Some (tk, m1) \<and> ticker tk = Some 2 \<and>
      AdvanceBy sort_key 100 12 m1 = Some (Returns () m2) \<and>
      sent m2 = sent m1 @ new \<and> deliveries 2 new = [3, 6, 9, 12]"
    by (simp add: a u)
  moreover
  from ticker_fires_every_period [OF sort_contract_sort_key ok p, of 100]
  have "\<exists>tk m1 m2 new.
      newTicker sort_key 3 dropping_clock = Some (tk, m1) \<and> ticker tk = Some 0 \<and>
      AdvanceBy sort_key 100 12 m1 = Some (Returns () m2) \<and>
      sent m2 = sent m1 @ new \<and> deliveries 0 new = [12]"
    by (simp add: b)
  ultimately show ?thesis by simp
qed

subsection \<open>Resetting a timer\<close>

lemma timer_reset_negative:
  assumes "d < 0" "state (objs m i) = tsActive"
  shows "timer_reset srt i d m = (True, set_nxt i (now m + d) m)"
    and "sent (set_nxt i (now m + d) m) = sent m"
    and "state (objs (set_nxt i (now m + d) m) i) = tsActive"
  using assms by (simp_all add: timer_reset_def resetTimer_def Let_def set_nxt_def)

lemma timer_reset_zero_not_active:
  assumes "state (objs m i) \<noteq> tsActive"
  shows "fst (timer_reset srt i 0 m) = False"
    and "sent (snd (timer_reset srt i 0 m)) = sent m"
  using assms
  by (simp_all add: timer_reset_def resetTimer_def Let_def set_nxt_def timer_tick_def
      timer_enterState_def set_state_def enableTicker_def activateTicker_def
      split: prod.splits option.splits)

text \<open>
  C4. \<^verbatim>\<open>Reset(d)\<close> of a mock timer is to fire the timer at once whenever \<open>d \<le> 0\<close>.
  \<^verbatim>\<open>resetTimer\<close> ticks the timer only when \<open>d = 0\<close> (\<^verbatim>\<open>newTimer\<close> does it when
  \<open>d \<le> 0\<close>): on \<open>demo_clock\<close>, \<^verbatim>\<open>Reset(-1)\<close> of the active timer 0 returns true, sets
  the next time to \<open>-1\<close>, delivers nothing and leaves the timer active. It is so for
  every active timer and every negative \<open>d\<close> (\<open>timer_reset_negative\<close>), and \<^verbatim>\<open>Reset(0)\<close>
  of a timer that is not active delivers nothing either (\<open>timer_reset_zero_not_active\<close>).
\<close>

theorem timer_reset_negative_does_not_fire:
  "Timer_Reset sort_key demo_timer (-1) demo_clock =
     Returns True (set_nxt 0 (-1) demo_clock) \<and>
   sent (set_nxt 0 (-1) demo_clock) = [] \<and>
   state (objs (set_nxt 0 (-1) demo_clock) 0) = tsActive"
  by (simp add: Timer_Reset_def timer_reset_def resetTimer_def Let_def demo_timer_def
      demo_clock_eval set_nxt_def initial_clock_def)

subsection \<open>The order of the active list\<close>

text \<open>
  C5, as the code has it. After \<^verbatim>\<open>activateTicker\<close>, after \<^verbatim>\<open>enableTicker\<close> of a tickable
  that is in the inactive list, and after a turn of \<^verbatim>\<open>mockClock.tick\<close> that ticked, the
  active list is ascending in the next time, for every sort that keeps the contract of
  \<^verbatim>\<open>sort.Sort\<close>.
\<close>

theorem active_sorted_after_sorting:
  "sort_contract srt \<longrightarrow>
     sorted (map (nextTick (activateTicker srt i m)) (active (activateTicker srt i m))) \<and>
     (i \<in> set (inactive m) \<longrightarrow>
        sorted (map (nextTick (enableTicker srt i m)) (active (enableTicker srt i m)))) \<and>
     (\<forall>m'. mockClock_tick srt t m = Some (True, m') \<longrightarrow>
        sorted (map (nextTick m') (active m')))"
  using mockClock_tick_sorted [of srt t m]
  by (auto simp: activateTicker_def enableTicker_def tickables_take_found nextTick_fun
      sort_contract_sorted)

theorem active_sorted_after_sorting_witness:
  "sorted (map (nextTick (activateTicker sort_key 1 demo_ticker_clock))
      (active (activateTicker sort_key 1 demo_ticker_clock))) \<and>
   sorted (map (nextTick (enableTicker sort_key 0 (snd (timer_stop sort_key 0 demo_ticker_clock))))
      (active (enableTicker sort_key 0 (snd (timer_stop sort_key 0 demo_ticker_clock))))) \<and>
   (\<exists>m'. mockClock_tick sort_key 4 demo_ticker_clock = Some (True, m') \<and>
      sorted (map (nextTick m') (active m')))"
proof -
  have t: "\<exists>m'. mockClock_tick sort_key 4 demo_ticker_clock = Some (True, m')"
    by (simp add: mockClock_tick_def demo_ticker_clock_eval nextTick_fun tickable_tick_def
        timer_tick_def timer_enterState_def Let_def set_state_def disableTicker_def
        tickables_take_def initial_clock_def)
  have i: "0 \<in> set (inactive (snd (timer_stop sort_key 0 demo_ticker_clock)))"
    by (simp add: timer_stop_def timer_enterState_def Let_def set_state_def disableTicker_def
        tickables_take_def demo_ticker_clock_eval initial_clock_def)
  from active_sorted_after_sorting [of sort_key 1 demo_ticker_clock 4]
    active_sorted_after_sorting [of sort_key 0 "snd (timer_stop sort_key 0 demo_ticker_clock)" 4]
    sort_contract_sort_key t i
  show ?thesis by blast
qed

lemma sort_contract_not_stable:
  "sort_contract rev_sort \<and> rev_sort (\<lambda>_. 10) [0, 1] = [1, 0]"
  by (simp add: sort_contract_rev_sort) (simp add: rev_sort_def)

text \<open>
  C5, as it is stated, fails: tickables with the same next time do not keep the order in
  which they were inserted. The order of a tie is the order the list had before the
  sort, at best: in \<open>overtaken_clock\<close> the ticker 1, created after the timer 0, was
  ahead of it while its next time was 5 and stays ahead when both are due at 10, with
  a sort that is stable. And the contract of \<^verbatim>\<open>sort.Sort\<close> does not ask for a stable
  sort (\<open>sort_contract_not_stable\<close>).
\<close>

theorem insertion_order_counterexample:
  "sort_contract sort_key \<and> active overtaken_clock = [1, 0] \<and>
   nextTick overtaken_clock 0 = nextTick overtaken_clock 1"
proof -
  have "NewTicker sort_key 5 (snd (NewTimer sort_key 10 (initial_clock 0))) =
    Some (\<lparr>stdTicker = True, ticker = Some 1, initialisedT = True\<rparr>,
      (initial_clock 0)\<lparr>active := [1, 0], nextTickerId := 2,
       objs := (\<lambda>_. zero_tickable)
       (0 := \<lparr>isTicker = False, fn = False, chan = True, dur = 0, nxt = 10, state = tsActive\<rparr>,
        1 := \<lparr>isTicker = True, fn = False, chan = True, dur = 5, nxt = 5, state = tsActive\<rparr>)\<rparr>)"
    by (simp add: NewTicker_def newTicker_def NewTimer_def newTimer_def Let_def activateTicker_def
        nextTick_fun initial_clock_def)
  then have b: "active overtaken_clock = [1, 0] \<and>
      nextTick overtaken_clock 0 = nextTick overtaken_clock 1"
    by (simp add: overtaken_clock_def AdvanceBy_def AdvanceTo_def tick_loop.simps
        mockClock_tick_def tickable_tick_def ticker_tick_def set_nxt_def nextTick_fun
        initial_clock_def)
  from b sort_contract_sort_key show ?thesis by simp
qed

subsection \<open>Advancing a running clock\<close>

text \<open>
  C6. \<^verbatim>\<open>AdvanceBy\<close> and \<^verbatim>\<open>AdvanceTo\<close> are documented to panic while the clock is running.
  Neither looks at the running state: on the clock of \<^verbatim>\<open>NewMockClock(StartRunning())\<close>,
  whatever the system clock reads when the clock is built (\<open>rt\<close>), when it is started
  (\<open>rt'\<close>) and during the advance (\<open>rt2\<close>), \<^verbatim>\<open>AdvanceBy(5)\<close> returns and moves the
  clock by 5, and so does \<^verbatim>\<open>AdvanceTo\<close> with the time 5 after that of the clock. The
  clock starts at the real time that passed between \<open>rt\<close> and \<open>rt'\<close>.
\<close>

theorem advance_on_running_clock_returns:
  "NewMockClock rt rt' [StartRunning] = Returns () (running_clock rt rt') \<and>
   IsRunning (running_clock rt rt') \<and>
   now (running_clock rt rt') = Sub rt' rt \<and>
   AdvanceBy sort_key rt2 5 (running_clock rt rt') =
     Some (Returns () ((running_clock rt rt')\<lparr>now := now (running_clock rt rt') + 5,
        updated := rt2\<rparr>)) \<and>
   AdvanceTo sort_key rt2 (now (running_clock rt rt') + 5) (running_clock rt rt') =
     Some (Returns () ((running_clock rt rt')\<lparr>now := now (running_clock rt rt') + 5,
        updated := rt2\<rparr>))"
  by (simp add: running_clock_def NewMockClock_def Start_def advance_def IsRunning_def Let_def
      initial_clock_def AdvanceBy_def AdvanceTo_def tick_loop.simps mockClock_tick_def)

subsection \<open>Stopping a timer or a ticker\<close>

lemma tickables_take_head: "tickables_take i (i # xs) = (xs, Some i)"
  by (simp add: tickables_take_def)

lemma timer_stop_active:
  assumes "state (objs m i) = tsActive"
  shows "timer_stop srt i m = (True, disableTicker i (set_state i tsStopped m))"
  using assms by (simp add: timer_stop_def timer_enterState_def Let_def)

lemma timer_stop_inactive:
  assumes "state (objs m i) \<noteq> tsActive"
  shows "timer_stop srt i m = (False, m)"
  using assms by (simp add: timer_stop_def)

lemma ticker_stop_active:
  assumes "state (objs m i) = tsActive"
  shows "ticker_stop srt i m = Returns () (disableTicker i (set_state i tsStopped m))"
  using assms by (simp add: ticker_stop_def ticker_enterState_def Let_def)

lemma ticker_stop_inactive:
  assumes "state (objs m i) \<noteq> tsActive"
  shows "ticker_stop srt i m = Returns () m"
  using assms by (simp add: ticker_stop_def)

subsection \<open>The deadline context\<close>

lemma timer_stop_not_active:
  "state (objs (snd (timer_stop srt i m)) i) \<noteq> tsActive"
  by (simp add: timer_stop_def timer_enterState_def Let_def set_state_def)

lemma cancel_resolved:
  "err c \<noteq> None \<Longrightarrow> cancel srt e c m = Returns c m"
  by (simp add: cancel_def)

lemma cancel_unresolved:
  assumes "ctx_ok c" "err c = None"
  shows "\<exists>m'. cancel srt e c m = Returns (c\<lparr>err := Some e, doneClosed := True, ctx_timer := None\<rparr>) m'
     \<and> bound_timer_stopped c m'"
proof (cases "ctx_timer c")
  case None
  then show ?thesis using assms
    by (simp add: cancel_def ctx_ok_def bound_timer_stopped_def)
next
  case (Some t)
  with assms obtain i where i: "timer t = Some i" by (auto simp: ctx_ok_def)
  obtain b m1 where s: "timer_stop srt i m = (b, m1)" by (cases "timer_stop srt i m")
  have "state (objs m1 i) \<noteq> tsActive" using timer_stop_not_active [of srt i m] s by simp
  then show ?thesis using assms Some i s
    by (simp add: cancel_def ctx_ok_def bound_timer_stopped_def Timer_Stop_def)
qed

lemma ctx_step_cases:
  assumes "ctx_ok c"
  shows "ctx_step srt real ev c m = Returns c m \<or>
    (err c = None \<and> (\<exists>e m'. ctx_step srt real ev c m =
        Returns (c\<lparr>err := Some e, doneClosed := True, ctx_timer := None\<rparr>) m' \<and>
        bound_timer_stopped c m'))"
proof (cases "err c")
  case None
  note cu = cancel_unresolved [OF assms None, of srt _ m]
  show ?thesis
  proof (cases ev)
    case CancelFunc
    then show ?thesis using cu [of Canceled] None by (cases real) auto
  next
    case TimerFired
    then show ?thesis using cu [of DeadlineExceeded] None by auto
  next
    case (ParentDone e)
    then show ?thesis using cu [of e] None by auto
  qed
next
  case (Some e0)
  then show ?thesis by (cases ev) (simp_all add: cancel_resolved)
qed

lemma ctx_run_resolved:
  "err c \<noteq> None \<Longrightarrow> \<exists>m'. ctx_run srt real evs c m = Returns c m'"
proof (induction evs arbitrary: m)
  case Nil
  then show ?case by simp
next
  case (Cons fe evs)
  obtain f ev where fe: "fe = (f, ev)" by (cases fe)
  have "ctx_step srt real ev c (f m) = Returns c (f m)"
    using Cons.prems by (cases ev) (simp_all add: cancel_resolved)
  with Cons fe show ?case by simp
qed

lemma cancel_fresh:
  "cancel srt e \<lparr>deadline = dl, doneClosed = False, err = None, ctx_timer = None\<rparr> m =
     Returns \<lparr>deadline = dl, doneClosed = True, err = Some e, ctx_timer = None\<rparr> m"
  by (simp add: cancel_def)

lemma newTimer_mocked: "timer (fst (newTimer srt d f m)) = Some (nextTickerId m)"
  by (simp add: newTimer_def Let_def)

lemma newMockContext_ok:
  "\<exists>c real m'. newMockContext srt rt early dl m = Returns (c, real) m' \<and> ctx_ok c"
proof (cases early)
  case None
  obtain d m2 where n: "Until rt dl m = (d, m2)" by (cases "Until rt dl m")
  obtain t m3 where a: "AfterFunc srt d m2 = (t, m3)"
    by (cases "AfterFunc srt d m2")
  have "timer t = Some (nextTickerId m2)"
    using a newTimer_mocked [of srt d True m2] by (simp add: AfterFunc_def)
  then show ?thesis
    using None n a
    by (auto simp: newMockContext_def Let_def cancel_fresh ctx_ok_def)
next
  case (Some e)
  obtain d m2 where n: "Until rt dl m = (d, m2)" by (cases "Until rt dl m")
  show ?thesis
    using Some n
    by (auto simp: newMockContext_def Let_def cancel_fresh cancel_resolved ctx_ok_def)
qed

lemma demo_ctx_created:
  "newMockContext sort_key 0 None 10 demo_clock = Returns (demo_ctx, True) demo_ctx_clock"
  by (simp add: newMockContext_def Let_def Until_def Now_stopped not_running_demo demo_ctx_def
      demo_ctx_clock_def AfterFunc_def newTimer_def)
     (simp add: demo_clock_eval initial_clock_def Sub_def maxDuration_def minDuration_def)

lemma demo_ctx_clock_eval:
  "demo_ctx_clock = (initial_clock 0)\<lparr>active := [0, 1, 2], nextTickerId := 3,
     objs := (\<lambda>_. zero_tickable)
       (0 := \<lparr>isTicker = False, fn = False, chan = True, dur = 0, nxt = 2, state = tsActive\<rparr>,
        1 := \<lparr>isTicker = False, fn = False, chan = True, dur = 0, nxt = 5, state = tsActive\<rparr>,
        2 := \<lparr>isTicker = False, fn = True, chan = False, dur = 0, nxt = 10, state = tsActive\<rparr>)\<rparr>"
  by (simp add: demo_ctx_clock_def AfterFunc_def newTimer_def Let_def activateTicker_def
      nextTick_fun demo_clock_eval initial_clock_def)

lemma advance_to_deadline_fires:
  "sent (advance_to_deadline demo_ctx_clock) = [(0, 2), (1, 5), (2, 10)] \<and>
   state (objs (advance_to_deadline demo_ctx_clock) 2) = tsExpired \<and>
   now (advance_to_deadline demo_ctx_clock) = 10"
  by (simp add: advance_to_deadline_def demo_ctx_clock_eval AdvanceBy_def AdvanceTo_def
      tick_loop.simps mockClock_tick_def tickable_tick_def timer_tick_def timer_enterState_def
      disableTicker_def tickables_take_def set_state_def nextTick_fun Let_def initial_clock_def
      zero_tickable_def go_deliver_def)

text \<open>
  C7. Whatever happens to a deadline context (calls of its cancel function, the firing
  of its timer, the end of its parent) and to the clock in between, nothing panics, so
  the channel is never closed twice; once the error is set no event changes the
  context, and \<^verbatim>\<open>cancel\<close> returns without touching the clock; while no event has set
  the error the context is as it was; and the \<^verbatim>\<open>cancel\<close> that first sets the error
  closes the channel, calls \<^verbatim>\<open>Stop\<close> on the bound timer, which is not active afterwards,
  and lets go of it. \<^verbatim>\<open>newMockContext\<close> returns a context for which this holds
  (\<open>newMockContext_ok\<close>).
\<close>

theorem context_resolves_once:
  "ctx_ok c \<longrightarrow>
     (\<exists>c' m'. ctx_run srt real evs c m = Returns c' m' \<and> ctx_ok c' \<and>
        (err c \<noteq> None \<longrightarrow> c' = c) \<and>
        (err c' = None \<longrightarrow> c' = c) \<and>
        (err c = None \<and> err c' \<noteq> None \<longrightarrow>
           doneClosed c' \<and> ctx_timer c' = None \<and>
           (\<forall>evs2. \<exists>m2. ctx_run srt real (evs @ evs2) c m = Returns c' m2))) \<and>
     (\<forall>e. err c \<noteq> None \<longrightarrow> cancel srt e c m = Returns c m) \<and>
     (\<forall>e. err c = None \<longrightarrow>
        (\<exists>m1. cancel srt e c m =
                Returns (c\<lparr>err := Some e, doneClosed := True, ctx_timer := None\<rparr>) m1 \<and>
              bound_timer_stopped c m1))"
proof (intro impI conjI allI)
  assume "ctx_ok c"
  then show "\<exists>c' m'. ctx_run srt real evs c m = Returns c' m' \<and> ctx_ok c' \<and>
        (err c \<noteq> None \<longrightarrow> c' = c) \<and>
        (err c' = None \<longrightarrow> c' = c) \<and>
        (err c = None \<and> err c' \<noteq> None \<longrightarrow>
           doneClosed c' \<and> ctx_timer c' = None \<and>
           (\<forall>evs2. \<exists>m2. ctx_run srt real (evs @ evs2) c m = Returns c' m2))"
  proof (induction evs arbitrary: m)
    case Nil
    then show ?case using ctx_run_resolved [of c srt real _ m] by (auto simp: ctx_ok_def)
  next
    case (Cons fe evs)
    obtain f ev where fe: "fe = (f, ev)" by (cases fe)
    from ctx_step_cases [OF Cons.prems, of srt real ev "f m"]
    show ?case
    proof
      assume same: "ctx_step srt real ev c (f m) = Returns c (f m)"
      from Cons.IH [OF Cons.prems, of "f m"] same fe show ?thesis by simp
    next
      assume "err c = None \<and> (\<exists>e m'. ctx_step srt real ev c (f m) =
        Returns (c\<lparr>err := Some e, doneClosed := True, ctx_timer := None\<rparr>) m' \<and>
        bound_timer_stopped c m')"
      then obtain e m1 where un: "err c = None"
        and st: "ctx_step srt real ev c (f m) =
          Returns (c\<lparr>err := Some e, doneClosed := True, ctx_timer := None\<rparr>) m1"
        by auto
      let ?c1 = "c\<lparr>err := Some e, doneClosed := True, ctx_timer := None\<rparr>"
      have r: "\<exists>m2. ctx_run srt real xs ?c1 m1 = Returns ?c1 m2" for xs
        by (rule ctx_run_resolved) simp
      have ok1: "ctx_ok ?c1" by (simp add: ctx_ok_def)
      from r [of evs] obtain m2 where m2: "ctx_run srt real evs ?c1 m1 = Returns ?c1 m2" ..
      have run: "ctx_run srt real (fe # evs) c m = Returns ?c1 m2"
        using st fe m2 by simp
      have ext: "\<exists>m3. ctx_run srt real ((fe # evs) @ evs2) c m = Returns ?c1 m3" for evs2
        using st fe r [of "evs @ evs2"] by simp
      show ?thesis
        by (intro exI [of _ ?c1] exI [of _ m2]) (use run ok1 un ext in simp)
    qed
  qed
next
  fix e
  assume "ctx_ok c" "err c \<noteq> None"
  then show "cancel srt e c m = Returns c m" by (simp add: cancel_resolved)
next
  fix e
  assume "ctx_ok c" "err c = None"
  then show "\<exists>m1. cancel srt e c m =
                Returns (c\<lparr>err := Some e, doneClosed := True, ctx_timer := None\<rparr>) m1 \<and>
              bound_timer_stopped c m1"
    by (rule cancel_unresolved)
qed

theorem context_resolves_once_witness:
  "\<exists>c' m' m1.
     ctx_run sort_key True
       [(advance_to_deadline, TimerFired), (id, CancelFunc), (id, ParentDone (ParentErr ''gone''))]
       demo_ctx demo_ctx_clock = Returns c' m' \<and>
     sent (advance_to_deadline demo_ctx_clock) = [(0, 2), (1, 5), (2, 10)] \<and>
     err c' = Some DeadlineExceeded \<and> doneClosed c' \<and> ctx_timer c' = None \<and>
     cancel sort_key Canceled demo_ctx demo_ctx_clock =
       Returns (demo_ctx\<lparr>err := Some Canceled, doneClosed := True, ctx_timer := None\<rparr>) m1 \<and>
     bound_timer_stopped demo_ctx m1"
proof -
  have ok: "ctx_ok demo_ctx" and un: "err demo_ctx = None"
    by (simp_all add: ctx_ok_def demo_ctx_def)
  have r: "\<exists>c' m'. ctx_run sort_key True
       [(advance_to_deadline, TimerFired), (id, CancelFunc), (id, ParentDone (ParentErr ''gone''))]
       demo_ctx demo_ctx_clock = Returns c' m' \<and> err c' = Some DeadlineExceeded"
    by (simp add: cancel_def demo_ctx_def Timer_Stop_def split: prod.splits)
  from context_resolves_once [of demo_ctx sort_key True
      "[(advance_to_deadline, TimerFired), (id, CancelFunc), (id, ParentDone (ParentErr ''gone''))]"
      demo_ctx_clock] ok un r advance_to_deadline_fires
  show ?thesis by (metis option.distinct(1) outcome.inject(1))
qed

subsection \<open>Timers and tickers that were never initialised\<close>

text \<open>
  C8, as the code has it. \<^verbatim>\<open>Reset\<close> on a \<^verbatim>\<open>Timer\<close> or \<^verbatim>\<open>Ticker\<close> that is not
  initialised panics with \<^verbatim>\<open>errResetCalledOnUninitialized\<close> and leaves the clock as it
  was, and \<^verbatim>\<open>tick\<close> on a nil \<^verbatim>\<open>*timer\<close> or \<^verbatim>\<open>*ticker\<close> returns false.
\<close>

theorem reset_uninitialised:
  "(\<not> initialised tm \<longrightarrow> Timer_Reset srt tm d m = Panics errResetCalledOnUninitialized m) \<and>
   (\<not> initialisedT tk \<longrightarrow> Ticker_Reset srt tk d m = Panics errResetCalledOnUninitialized m) \<and>
   timer_tick srt None tnow m = (False, m) \<and>
   ticker_tick None tnow m = Some (False, m)"
  by (simp add: Timer_Reset_def Ticker_Reset_def timer_tick_def ticker_tick_def)

theorem reset_uninitialised_witness:
  "Timer_Reset sort_key zero_Timer 1000 demo_clock = Panics errResetCalledOnUninitialized demo_clock \<and>
   Ticker_Reset sort_key zero_Ticker 1000 demo_clock = Panics errResetCalledOnUninitialized demo_clock \<and>
   timer_tick sort_key None 7 demo_clock = (False, demo_clock) \<and>
   ticker_tick None 7 demo_clock = Some (False, demo_clock)"
proof -
  have "\<not> initialised zero_Timer" "\<not> initialisedT zero_Ticker"
    by (simp_all add: zero_Timer_def zero_Ticker_def)
  with reset_uninitialised [of zero_Timer sort_key 1000 demo_clock zero_Ticker 7]
  show ?thesis by simp
qed

text \<open>
  C8, as it is stated, fails for \<^verbatim>\<open>Stop\<close>, which does not look at \<^verbatim>\<open>initialised\<close>: on
  the zero value it calls \<^verbatim>\<open>Stop\<close> of the nil timer of the standard library, which
  dereferences nil.
\<close>

theorem stop_uninitialised_counterexample:
  "Timer_Stop sort_key zero_Timer demo_clock = Panics nilPointerDereference demo_clock \<and>
   Timer_Stop sort_key zero_Timer demo_clock \<noteq> Panics errResetCalledOnUninitialized demo_clock \<and>
   Ticker_Stop sort_key zero_Ticker demo_clock = Panics nilPointerDereference demo_clock \<and>
   Ticker_Stop sort_key zero_Ticker demo_clock \<noteq> Panics errResetCalledOnUninitialized demo_clock"
  by (simp add: Timer_Stop_def Ticker_Stop_def zero_Timer_def zero_Ticker_def)

subsection \<open>Stopping twice\<close>

text \<open>
  C9, as the code has it. \<^verbatim>\<open>Stop\<close> on an active mock timer returns true and leaves it
  stopped with the same next time, and a second \<^verbatim>\<open>Stop\<close> returns false and changes
  nothing. \<^verbatim>\<open>Stop\<close> on an active mock ticker leaves it stopped with the same next time
  and a second \<^verbatim>\<open>Stop\<close> changes nothing; it returns no value.
\<close>

theorem stop_idempotent:
  "(timer tm = Some i \<and> state (objs m i) = tsActive \<longrightarrow>
      (\<exists>m1. Timer_Stop srt tm m = Returns True m1 \<and>
            state (objs m1 i) = tsStopped \<and> nxt (objs m1 i) = nxt (objs m i) \<and>
            Timer_Stop srt tm m1 = Returns False m1)) \<and>
   (ticker tk = Some j \<and> state (objs m j) = tsActive \<longrightarrow>
      (\<exists>m1. Ticker_Stop srt tk m = Returns () m1 \<and>
            state (objs m1 j) = tsStopped \<and> nxt (objs m1 j) = nxt (objs m j) \<and>
            Ticker_Stop srt tk m1 = Returns () m1))"
  by (auto simp: Timer_Stop_def Ticker_Stop_def timer_stop_active ticker_stop_active
      timer_stop_inactive ticker_stop_inactive set_state_def)

theorem stop_idempotent_witness:
  "\<exists>m1 m2. Timer_Stop sort_key demo_timer demo_ticker_clock = Returns True m1 \<and>
     state (objs m1 0) = tsStopped \<and> nxt (objs m1 0) = 2 \<and>
     Timer_Stop sort_key demo_timer m1 = Returns False m1 \<and>
     Ticker_Stop sort_key demo_ticker demo_ticker_clock = Returns () m2 \<and>
     state (objs m2 2) = tsStopped \<and> nxt (objs m2 2) = 3 \<and>
     Ticker_Stop sort_key demo_ticker m2 = Returns () m2"
proof -
  have "timer demo_timer = Some 0 \<and> state (objs demo_ticker_clock 0) = tsActive"
    "ticker demo_ticker = Some 2 \<and> state (objs demo_ticker_clock 2) = tsActive"
    "nxt (objs demo_ticker_clock 0) = 2" "nxt (objs demo_ticker_clock 2) = 3"
    by (simp_all add: demo_timer_def demo_ticker_def demo_ticker_clock_eval)
  with stop_idempotent [of demo_timer 0 demo_ticker_clock sort_key demo_ticker 2]
  show ?thesis by auto
qed

text \<open>
  C9, as it is stated, fails for a ticker: \<^verbatim>\<open>Ticker.Stop\<close> and \<^verbatim>\<open>ticker.stop\<close> have no
  result, so the call that stops the ticker and the call that finds it stopped return
  the same, and nothing reports whether a transition occurred.
\<close>

theorem ticker_stop_reports_nothing_counterexample:
  "state (objs demo_ticker_clock 2) = tsActive \<and>
   Ticker_Stop sort_key demo_ticker demo_ticker_clock = Returns () stopped_ticker_clock \<and>
   state (objs stopped_ticker_clock 2) = tsStopped \<and>
   Ticker_Stop sort_key demo_ticker stopped_ticker_clock = Returns () stopped_ticker_clock"
proof -
  have a: "state (objs demo_ticker_clock 2) = tsActive"
    by (simp add: demo_ticker_clock_eval)
  have b: "state (objs stopped_ticker_clock 2) = tsStopped"
    by (simp add: stopped_ticker_clock_def set_state_def)
  from a b show ?thesis
    by (simp add: Ticker_Stop_def demo_ticker_def ticker_stop_active ticker_stop_inactive
        stopped_ticker_clock_def)
qed

subsection \<open>Tick and NewTicker with a duration that is not positive\<close>

lemma newTicker_diverges:
  "d \<le> 0 \<Longrightarrow> dropsTicks m \<Longrightarrow> newTicker srt d m = None"
  by (simp add: newTicker_def Let_def ticker_tick_def activateTicker_def dropLoop_diverges)

lemma Tick_nonpos: "d \<le> 0 \<Longrightarrow> Tick srt d m = Some (None, m)"
  by (simp add: Tick_def)

lemma newTicker_nonpos_fires:
  "d \<le> 0 \<Longrightarrow> \<not> dropsTicks m \<Longrightarrow>
   \<exists>tk m1. newTicker srt d m = Some (tk, m1) \<and> ticker tk = Some (nextTickerId m)
     \<and> sent m1 = sent m @ [(nextTickerId m, now m)]
     \<and> active m1 = srt (nextTick (m\<lparr>objs := (objs m)(nextTickerId m := \<lparr>isTicker = True, fn = False, chan = True, dur = d, nxt = now m,
               state = tsActive\<rparr>)\<rparr>)) (active m @ [nextTickerId m])"
  by (simp add: newTicker_def Let_def ticker_tick_def activateTicker_def set_nxt_def)

text \<open>
  C10. With \<open>d \<le> 0\<close>, \<^verbatim>\<open>Tick(d)\<close> returns the nil channel and leaves the clock as it was
  (\<open>Tick_nonpos\<close>), and \<^verbatim>\<open>NewTicker(d)\<close> on a clock that does not drop ticks creates a
  ticker that fires at once (\<open>newTicker_nonpos_fires\<close>). On a clock that drops ticks
  \<^verbatim>\<open>NewTicker(d)\<close> does not return: the loop that skips to the last tick adds \<open>d\<close> to a
  next time that is not after now, for ever.
\<close>

theorem newTicker_zero_never_returns:
  "NewMockClock 0 0 [DropsTicks] = Returns () dropping_clock \<and>
   NewTicker sort_key 0 dropping_clock = None \<and>
   Tick sort_key 0 dropping_clock = Some (None, dropping_clock)"
proof -
  have "dropsTicks dropping_clock"
    by (simp add: dropping_clock_def NewMockClock_def initial_clock_def)
  then have "NewTicker sort_key 0 dropping_clock = None"
    by (simp add: NewTicker_def newTicker_diverges)
  then show ?thesis
    by (simp add: Tick_def dropping_clock_def NewMockClock_def)
qed

end
